theory Spec2Isabelle
  imports Main "HOL-Library.Word" "HOL-Library.Monad_Syntax"
begin

unbundle bit_operations_syntax

section \<open>Library functions used by the program\<close>

text \<open>
  The program (\<^verbatim>\<open>src/main.go\<close>) is a credential process that caches credentials
  in \<^verbatim>\<open>~/.aws/cli/cache\<close>. Go strings are byte sequences; they are modelled as
  \<^typ>\<open>string\<close>, one \<^typ>\<open>char\<close> per byte. This section models the parts of the Go
  standard library that the program calls: \<^verbatim>\<open>crypto/sha1\<close>, \<^verbatim>\<open>encoding/hex\<close>,
  \<^verbatim>\<open>strings\<close>, \<^verbatim>\<open>strconv\<close>, \<^verbatim>\<open>unicode/utf8\<close> and the string encoder of
  \<^verbatim>\<open>encoding/json\<close>.
\<close>

subsection \<open>Bytes\<close>

definition byte :: "char \<Rightarrow> nat" where
  "byte c = of_char c"

definition hexdigits :: string where
  "hexdigits = ''0123456789abcdef''"

text \<open>\<^verbatim>\<open>hex.EncodeToString\<close>: two lowercase hexadecimal digits per byte.\<close>

definition hex_EncodeToString :: "nat list \<Rightarrow> string" where
  "hex_EncodeToString bs =
     concat (map (\<lambda>b. [hexdigits ! (b div 16), hexdigits ! (b mod 16)]) bs)"

text \<open>
  \<^verbatim>\<open>strings.ToLower\<close> on ASCII letters. Bytes outside \<^verbatim>\<open>A..Z\<close> are kept: the only
  argument the program passes is the output of \<^verbatim>\<open>hex.EncodeToString\<close>, which is ASCII.
\<close>

definition toLower_byte :: "char \<Rightarrow> char" where
  "toLower_byte c = (if 65 \<le> byte c \<and> byte c \<le> 90 then char_of (byte c + 32) else c)"

definition strings_ToLower :: "string \<Rightarrow> string" where
  "strings_ToLower s = map toLower_byte s"

text \<open>
  \<^verbatim>\<open>strings.Replace(s, old, new, -1)\<close>: every non-overlapping occurrence of \<open>old\<close>,
  found from left to right, is replaced by \<open>new\<close>. The program only passes the
  two-byte patterns \<^verbatim>\<open>":\<close> and \<^verbatim>\<open>,"\<close>; for the empty pattern, which Go treats
  specially and the program never passes, the string is returned as it is.
\<close>

function strings_ReplaceAll :: "string \<Rightarrow> string \<Rightarrow> string \<Rightarrow> string" where
  "strings_ReplaceAll s old new =
     (if old = [] then s
      else case s of
        [] \<Rightarrow> []
      | c # cs \<Rightarrow>
          if take (length old) s = old
          then new @ strings_ReplaceAll (drop (length old) s) old new
          else c # strings_ReplaceAll cs old new)"
  by pat_completeness auto
termination
  by (relation "measure (\<lambda>(s, old, new). length s)") (auto simp: neq_Nil_conv)

declare strings_ReplaceAll.simps [simp del]

text \<open>\<^verbatim>\<open>strconv.AppendInt(_, n, 10)\<close>: decimal digits, with a minus sign for negatives.\<close>

fun nat_digits :: "nat \<Rightarrow> string" where
  "nat_digits n =
     (if n < 10 then [char_of (48 + n)]
      else nat_digits (n div 10) @ [char_of (48 + n mod 10)])"

declare nat_digits.simps [simp del]

definition strconv_Itoa :: "int \<Rightarrow> string" where
  "strconv_Itoa n = (if n < 0 then CHR ''-'' # nat_digits (nat (- n)) else nat_digits (nat n))"

subsection \<open>SHA-1\<close>

text \<open>
  \<^verbatim>\<open>crypto/sha1\<close> (FIPS 180-4) on 32-bit words: padding to a multiple of 64 bytes
  with the bit length as a big-endian 64-bit number, the 80-word message schedule,
  80 rounds per block, and the five state words written big-endian.
\<close>

type_synonym u32 = "32 word"

definition sha1_pad :: "string \<Rightarrow> nat list" where
  "sha1_pad msg =
     (let n = length msg; bits = 8 * n
      in map byte msg @ [128] @ replicate ((119 - n mod 64) mod 64) 0 @
         map (\<lambda>k. (bits div 256 ^ k) mod 256) [7, 6, 5, 4, 3, 2, 1, 0])"

fun be32 :: "nat list \<Rightarrow> u32 list" where
  "be32 (a # b # c # d # rest) =
     word_of_nat (((a * 256 + b) * 256 + c) * 256 + d) # be32 rest"
| "be32 _ = []"

fun chunks64 :: "nat list \<Rightarrow> nat list list" where
  "chunks64 [] = []"
| "chunks64 (b # bs) = take 64 (b # bs) # chunks64 (drop 63 bs)"

text \<open>
  The schedule is built on the reversed list of the words so far, so that
  \<open>w\<^sub>i\<^sub>-\<^sub>3\<close>, \<open>w\<^sub>i\<^sub>-\<^sub>8\<close>, \<open>w\<^sub>i\<^sub>-\<^sub>1\<^sub>4\<close> and \<open>w\<^sub>i\<^sub>-\<^sub>1\<^sub>6\<close> are at the indices 2, 7, 13 and 15.
\<close>

fun sha1_schedule :: "nat \<Rightarrow> u32 list \<Rightarrow> u32 list" where
  "sha1_schedule 0 rw = rev rw"
| "sha1_schedule (Suc k) rw =
     sha1_schedule k (word_rotl 1 (rw ! 2 XOR rw ! 7 XOR rw ! 13 XOR rw ! 15) # rw)"

type_synonym sha1_state = "u32 \<times> u32 \<times> u32 \<times> u32 \<times> u32"

definition sha1_f :: "nat \<Rightarrow> u32 \<Rightarrow> u32 \<Rightarrow> u32 \<Rightarrow> u32" where
  "sha1_f i b c d =
     (if i < 20 then (b AND c) OR (NOT b AND d)
      else if i < 40 then b XOR c XOR d
      else if i < 60 then (b AND c) OR (b AND d) OR (c AND d)
      else b XOR c XOR d)"

definition sha1_k :: "nat \<Rightarrow> u32" where
  "sha1_k i =
     (if i < 20 then 0x5A827999 else if i < 40 then 0x6ED9EBA1
      else if i < 60 then 0x8F1BBCDC else 0xCA62C1D6)"

fun sha1_rounds :: "nat \<Rightarrow> u32 list \<Rightarrow> sha1_state \<Rightarrow> sha1_state" where
  "sha1_rounds i [] s = s"
| "sha1_rounds i (w # ws) (a, b, c, d, e) =
     sha1_rounds (Suc i) ws
       (word_rotl 5 a + sha1_f i b c d + e + sha1_k i + w, a, word_rotl 30 b, c, d)"

definition sha1_block :: "sha1_state \<Rightarrow> nat list \<Rightarrow> sha1_state" where
  "sha1_block h blk =
     (case h of (h0, h1, h2, h3, h4) \<Rightarrow>
        (case sha1_rounds 0 (sha1_schedule 64 (rev (be32 blk))) h of
           (a, b, c, d, e) \<Rightarrow> (h0 + a, h1 + b, h2 + c, h3 + d, h4 + e)))"

definition sha1_init :: sha1_state where
  "sha1_init = (0x67452301, 0xEFCDAB89, 0x98BADCFE, 0x10325476, 0xC3D2E1F0)"

definition word_bytes :: "u32 \<Rightarrow> nat list" where
  "word_bytes w =
     (let n = unat w
      in [n div 16777216, (n div 65536) mod 256, (n div 256) mod 256, n mod 256])"

definition sha1_Sum :: "string \<Rightarrow> nat list" where
  "sha1_Sum msg =
     (case foldl sha1_block sha1_init (chunks64 (sha1_pad msg)) of
        (h0, h1, h2, h3, h4) \<Rightarrow> concat (map word_bytes [h0, h1, h2, h3, h4]))"

subsection \<open>UTF-8 and the JSON string encoder\<close>

text \<open>
  \<^verbatim>\<open>utf8.DecodeRune\<close> on a byte sequence whose first byte is not ASCII: the width
  of the well-formed encoding that starts the sequence (2, 3 or 4), or 0 where Go returns
  \<^verbatim>\<open>(RuneError, 1)\<close>. The second byte must lie in the range that excludes overlong
  encodings, surrogates and code points above \<^verbatim>\<open>U+10FFFF\<close>.
\<close>

definition utf8_cont :: "nat \<Rightarrow> bool" where
  "utf8_cont b = (128 \<le> b \<and> b \<le> 191)"

definition utf8_need :: "nat \<Rightarrow> nat" where
  "utf8_need b0 =
     (if 194 \<le> b0 \<and> b0 \<le> 223 then 2
      else if 224 \<le> b0 \<and> b0 \<le> 239 then 3
      else if 240 \<le> b0 \<and> b0 \<le> 244 then 4
      else 0)"

definition utf8_second_ok :: "nat \<Rightarrow> nat \<Rightarrow> bool" where
  "utf8_second_ok b0 b1 =
     ((if b0 = 224 then 160 else if b0 = 240 then 144 else 128) \<le> b1 \<and>
      b1 \<le> (if b0 = 237 then 159 else if b0 = 244 then 143 else 191))"

definition utf8_width :: "nat list \<Rightarrow> nat" where
  "utf8_width p =
     (case p of
        [] \<Rightarrow> 0
      | p0 # _ \<Rightarrow>
          let sz = utf8_need p0
          in if sz = 0 \<or> length p < sz then 0
             else if \<not> utf8_second_ok p0 (p ! 1) then 0
             else if sz \<le> 2 then 2
             else if \<not> utf8_cont (p ! 2) then 0
             else if sz \<le> 3 then 3
             else if \<not> utf8_cont (p ! 3) then 0
             else 4)"

text \<open>
  \<^verbatim>\<open>utf8.ValidString\<close>: the string is a sequence of ASCII bytes and well-formed
  encodings.
\<close>

function utf8_valid :: "string \<Rightarrow> bool" where
  "utf8_valid [] = True"
| "utf8_valid (c # cs) =
     (if byte c < 128 then utf8_valid cs
      else
        let n = utf8_width (map byte (take 4 (c # cs)))
        in n \<noteq> 0 \<and> utf8_valid (drop (n - 1) cs))"
  by pat_completeness auto
termination
  by (relation "measure length") auto

declare utf8_valid.simps(2) [simp del]

text \<open>
  The escape of one ASCII byte in \<^verbatim>\<open>encoding/json\<close> with HTML escaping on, as
  \<^verbatim>\<open>json.Marshal\<close> has it: the quote and the backslash get a backslash, the control
  characters their short form or a six-byte hexadecimal escape, and \<^verbatim>\<open><\<close>, \<^verbatim>\<open>>\<close>, \<^verbatim>\<open>&\<close> are
  written as hexadecimal escapes too. Every other ASCII byte is copied.
\<close>

definition json_u00 :: "nat \<Rightarrow> string" where
  "json_u00 b = [CHR 0x5C, CHR ''u'', CHR ''0'', CHR ''0'', hexdigits ! (b div 16), hexdigits ! (b mod 16)]"

definition json_escape_ascii :: "char \<Rightarrow> string" where
  "json_escape_ascii c =
     (let b = byte c
      in if b = 34 \<or> b = 92 then [CHR 0x5C, c]
         else if b = 8 then [CHR 0x5C, CHR ''b'']
         else if b = 12 then [CHR 0x5C, CHR ''f'']
         else if b = 10 then [CHR 0x5C, CHR ''n'']
         else if b = 13 then [CHR 0x5C, CHR ''r'']
         else if b = 9 then [CHR 0x5C, CHR ''t'']
         else if b < 32 \<or> b = 60 \<or> b = 62 \<or> b = 38 then json_u00 b
         else [c])"

text \<open>
  The body of a JSON string literal for a Go string. A byte that starts no
  well-formed UTF-8 encoding becomes the escape of \<^verbatim>\<open>U+FFFD\<close>; \<^verbatim>\<open>U+2028\<close> and \<^verbatim>\<open>U+2029\<close> (the bytes
  \<^verbatim>\<open>E2 80 A8\<close> and \<^verbatim>\<open>E2 80 A9\<close>) are escaped; every other multi-byte rune is copied.
\<close>

function json_escape :: "string \<Rightarrow> string" where
  "json_escape [] = []"
| "json_escape (c # cs) =
     (if byte c < 128 then json_escape_ascii c @ json_escape cs
      else
        let n = utf8_width (map byte (take 4 (c # cs)))
        in if n = 0 then [CHR 0x5C, CHR ''u'', CHR ''f'', CHR ''f'', CHR ''f'', CHR ''d''] @ json_escape cs
           else if map byte (take 3 (c # cs)) = [226, 128, 168]
             then [CHR 0x5C, CHR ''u'', CHR ''2'', CHR ''0'', CHR ''2'', CHR ''8''] @ json_escape (drop 2 cs)
           else if map byte (take 3 (c # cs)) = [226, 128, 169]
             then [CHR 0x5C, CHR ''u'', CHR ''2'', CHR ''0'', CHR ''2'', CHR ''9''] @ json_escape (drop 2 cs)
           else take n (c # cs) @ json_escape (drop (n - 1) cs))"
  by pat_completeness auto
termination
  by (relation "measure length") auto

declare json_escape.simps(2) [simp del]

definition json_string :: "string \<Rightarrow> string" where
  "json_string s = [CHR 0x22] @ json_escape s @ [CHR 0x22]"

section \<open>The cache key\<close>

text \<open>
  \<^verbatim>\<open>computableCacheKey\<close> (main.go, lines 178 to 183). \<^verbatim>\<open>DurationSeconds\<close> is a Go
  \<^verbatim>\<open>int\<close>; its decimal form does not depend on the width, so it is an \<^typ>\<open>int\<close> here.
\<close>

record computableCacheKey =
  DurationSeconds :: int
  ExternalId :: string
  RoleArn :: string
  SerialNumber :: string

text \<open>
  \<^verbatim>\<open>json.Marshal\<close> of the struct: the fields in the order of their declaration, each
  with the tag \<^verbatim>\<open>omitempty\<close>, so that a zero number and an empty string are left out.
  The output has no white space.
\<close>

definition json_member :: "string \<Rightarrow> string \<Rightarrow> string" where
  "json_member k v = json_string k @ '':'' @ v"

fun json_join :: "string list \<Rightarrow> string" where
  "json_join [] = []"
| "json_join [m] = m"
| "json_join (m # ms) = m @ '','' @ json_join ms"

definition cacheKey_members :: "computableCacheKey \<Rightarrow> (string \<times> string) list" where
  "cacheKey_members v =
     (if DurationSeconds v = 0 then [] else [(''DurationSeconds'', strconv_Itoa (DurationSeconds v))]) @
     (if ExternalId v = [] then [] else [(''ExternalId'', json_string (ExternalId v))]) @
     (if RoleArn v = [] then [] else [(''RoleArn'', json_string (RoleArn v))]) @
     (if SerialNumber v = [] then [] else [(''SerialNumber'', json_string (SerialNumber v))])"

definition json_Marshal_cacheKey :: "computableCacheKey \<Rightarrow> string" where
  "json_Marshal_cacheKey v =
     ''{'' @ json_join (map (\<lambda>(k, x). json_member k x) (cacheKey_members v)) @ ''}''"

text \<open>
  \<^verbatim>\<open>computableCacheKey.String\<close> (main.go, lines 189 to 204): the two replacements on
  the marshalled text, then the SHA-1 digest in lowercase hexadecimal.
  \<open>cacheKey_text\<close> is the string that is hashed.
\<close>

definition cacheKey_text :: "computableCacheKey \<Rightarrow> string" where
  \<open>cacheKey_text v =
     strings_ReplaceAll (strings_ReplaceAll (json_Marshal_cacheKey v) ''":'' ''": '') '',"'' '', "''\<close>

definition computableCacheKey_String :: "computableCacheKey \<Rightarrow> string" where
  "computableCacheKey_String v =
     strings_ToLower (hex_EncodeToString (sha1_Sum (cacheKey_text v)))"

text \<open>
  The text that the specification describes: the same members, in the same order,
  with one space after the colon of each member and one after each comma between
  members, and nowhere else.
\<close>

fun spec_join :: "string list \<Rightarrow> string" where
  "spec_join [] = []"
| "spec_join [m] = m"
| "spec_join (m # ms) = m @ '', '' @ spec_join ms"

definition spec_cacheKey_text :: "computableCacheKey \<Rightarrow> string" where
  "spec_cacheKey_text v =
     ''{'' @ spec_join (map (\<lambda>(k, x). json_string k @ '': '' @ x) (cacheKey_members v)) @ ''}''"

section \<open>Time\<close>

text \<open>
  A \<^verbatim>\<open>time.Time\<close> is an instant with a location: \<open>unix\<close> is the number of seconds
  since 1970-01-01T00:00:00Z, \<open>nanos\<close> the nanoseconds within that second (below
  \<open>10\<^sup>9\<close>), and \<open>zone\<close> the offset in seconds east of UTC that the location has at
  that instant (0 for UTC).
\<close>

record Time =
  unix :: int
  nanos :: nat
  zone :: int

text \<open>\<^verbatim>\<open>Time.After\<close> compares instants; the location plays no part.\<close>

definition After :: "Time \<Rightarrow> Time \<Rightarrow> bool" where
  "After t u = (unix t > unix u \<or> (unix t = unix u \<and> nanos t > nanos u))"

subsection \<open>The proleptic Gregorian calendar\<close>

definition isLeap :: "int \<Rightarrow> bool" where
  "isLeap y = (y mod 4 = 0 \<and> (y mod 100 \<noteq> 0 \<or> y mod 400 = 0))"

definition month_lengths :: "int \<Rightarrow> nat list" where
  "month_lengths y = [31, if isLeap y then 29 else 28, 31, 30, 31, 30, 31, 31, 30, 31, 30, 31]"

definition daysIn :: "nat \<Rightarrow> int \<Rightarrow> nat" where
  "daysIn m y = month_lengths y ! (m - 1)"

text \<open>The number of days from 0001-01-01 to the first day of year \<open>y\<close>.\<close>

definition days_before_year :: "int \<Rightarrow> int" where
  "days_before_year y = 365 * (y - 1) + (y - 1) div 4 - (y - 1) div 100 + (y - 1) div 400"

text \<open>
  The year and the day within the year (from 0) of a day counted from 0001-01-01:
  cycles of 400 years, then of 100 years (at most three in a cycle of 400), then of
  4 years, then single years (at most three in a cycle of 4).
\<close>

definition year_of_days :: "int \<Rightarrow> int \<times> nat" where
  "year_of_days d =
     (let n400 = d div 146097; r = d mod 146097;
          n100 = min 3 (r div 36524); r1 = r - 36524 * n100;
          n4 = r1 div 1461; r2 = r1 mod 1461;
          n1 = min 3 (r2 div 365)
      in (400 * n400 + 100 * n100 + 4 * n4 + n1 + 1, nat (r2 - 365 * n1)))"

text \<open>The month (from \<open>m\<close>) and the day of the month (from 1) of a day within the year.\<close>

fun month_of_yday :: "nat list \<Rightarrow> nat \<Rightarrow> nat \<Rightarrow> nat \<times> nat" where
  "month_of_yday [] m d = (m, d + 1)"
| "month_of_yday (l # ls) m d = (if d < l then (m, d + 1) else month_of_yday ls (m + 1) (d - l))"

record civil =
  year :: int
  month :: nat
  day :: nat
  hour :: nat
  minute :: nat
  second :: nat

text \<open>
  \<^verbatim>\<open>62135596800\<close> is the number of seconds from 0001-01-01T00:00:00Z to the Unix
  epoch. \<open>civil_of\<close> reads the clock of a \<^verbatim>\<open>Time\<close> in its own location, as
  \<^verbatim>\<open>Time.Format\<close> does.
\<close>

definition civil_of :: "Time \<Rightarrow> civil" where
  "civil_of t =
     (let a = unix t + zone t + 62135596800;
          s = nat (a mod 86400);
          (y, yd) = year_of_days (a div 86400);
          (m, d) = month_of_yday (month_lengths y) 1 yd
      in \<lparr>year = y, month = m, day = d,
          hour = s div 3600, minute = (s mod 3600) div 60, second = s mod 60\<rparr>)"

text \<open>
  \<^verbatim>\<open>time.Date(y, m, d, h, mi, s, ns, time.UTC)\<close> for a month from 1 to 12, a day
  that the month has, and a clock within the day. \<^verbatim>\<open>time.Parse\<close> checks these ranges
  before it calls \<^verbatim>\<open>Date\<close>, so the normalisation that \<^verbatim>\<open>Date\<close> applies to
  values out of range never takes place.
\<close>

definition time_Date :: "civil \<Rightarrow> nat \<Rightarrow> Time" where
  "time_Date c ns =
     \<lparr>unix = (days_before_year (year c)
               + int (sum_list (take (month c - 1) (month_lengths (year c))))
               + int (day c) - 1) * 86400
             + int (hour c) * 3600 + int (minute c) * 60 + int (second c) - 62135596800,
      nanos = ns, zone = 0\<rparr>"

subsection \<open>Formatting and parsing with the layout of the cache file\<close>

text \<open>
  The layout is \<^verbatim>\<open>2006-01-02T15:04:05+00:00\<close>. Its last six bytes are no layout
  element (a numeric zone would be written \<^verbatim>\<open>-07:00\<close>), so they are literal text.

  \<^verbatim>\<open>appendInt\<close> of package \<^verbatim>\<open>time\<close>: a minus sign for a negative number, then the
  digits, padded with zeros to the width.
\<close>

definition appendInt :: "int \<Rightarrow> nat \<Rightarrow> string" where
  "appendInt x width =
     (let ds = nat_digits (nat \<bar>x\<bar>)
      in (if x < 0 then ''-'' else []) @ replicate (width - length ds) CHR ''0'' @ ds)"

definition Format_layout :: "Time \<Rightarrow> string" where
  "Format_layout t =
     (let c = civil_of t
      in appendInt (year c) 4 @ ''-'' @ appendInt (int (month c)) 2 @ ''-'' @
         appendInt (int (day c)) 2 @ ''T'' @ appendInt (int (hour c)) 2 @ '':'' @
         appendInt (int (minute c)) 2 @ '':'' @ appendInt (int (second c)) 2 @ ''+00:00'')"

text \<open>The helpers of \<^verbatim>\<open>time.Parse\<close>. \<open>None\<close> is a parse error.\<close>

definition isDigit :: "string \<Rightarrow> nat \<Rightarrow> bool" where
  "isDigit s i = (i < length s \<and> 48 \<le> byte (s ! i) \<and> byte (s ! i) \<le> 57)"

definition digit_val :: "char \<Rightarrow> nat" where
  "digit_val c = byte c - 48"

text \<open>\<^verbatim>\<open>getnum(s, fixed)\<close>: one or two digits; exactly two when \<open>fixed\<close>.\<close>

definition getnum :: "string \<Rightarrow> bool \<Rightarrow> (nat \<times> string) option" where
  "getnum s fixed =
     (if \<not> isDigit s 0 then None
      else if \<not> isDigit s 1 then (if fixed then None else Some (digit_val (s ! 0), drop 1 s))
      else Some (digit_val (s ! 0) * 10 + digit_val (s ! 1), drop 2 s))"

text \<open>\<^verbatim>\<open>skip(value, prefix)\<close> for a prefix without spaces: the literal text must be there.\<close>

definition skip :: "string \<Rightarrow> string \<Rightarrow> string option" where
  "skip s prefix = (if take (length prefix) s = prefix then Some (drop (length prefix) s) else None)"

text \<open>The four digits of the year (\<^verbatim>\<open>stdLongYear\<close>).\<close>

definition get_year :: "string \<Rightarrow> (nat \<times> string) option" where
  "get_year s =
     (if isDigit s 0 \<and> isDigit s 1 \<and> isDigit s 2 \<and> isDigit s 3
      then Some (((digit_val (s ! 0) * 10 + digit_val (s ! 1)) * 10 + digit_val (s ! 2)) * 10
                   + digit_val (s ! 3), drop 4 s)
      else None)"

text \<open>
  A fraction of a second in the input although the layout has none: after the
  seconds, a period or a comma followed by a digit starts a fraction, whose digits
  are all consumed and whose first nine give the nanoseconds.
\<close>

definition commaOrPeriod :: "char \<Rightarrow> bool" where
  "commaOrPeriod c = (c = CHR ''.'' \<or> c = CHR '','')"

definition digits_val :: "string \<Rightarrow> nat" where
  "digits_val ds = foldl (\<lambda>n c. n * 10 + digit_val c) 0 ds"

definition get_fraction :: "string \<Rightarrow> nat \<times> string" where
  "get_fraction s =
     (if 2 \<le> length s \<and> commaOrPeriod (s ! 0) \<and> isDigit s 1
      then (let ds = takeWhile (\<lambda>c. 48 \<le> byte c \<and> byte c \<le> 57) (drop 1 s);
                ds9 = take 9 ds
            in (digits_val ds9 * 10 ^ (9 - length ds9), drop (1 + length ds) s))
      else (0, s))"

text \<open>
  \<^verbatim>\<open>time.Parse\<close> with the layout: the elements in turn, each with its range check;
  a single digit is accepted for the hour (\<^verbatim>\<open>stdHour\<close> is not a fixed-width
  element); nothing may follow the literal suffix; the day must exist in the month;
  the result is in UTC.
\<close>

definition guard :: "bool \<Rightarrow> unit option" where
  "guard b = (if b then Some () else None)"

definition Parse_layout :: "string \<Rightarrow> Time option" where
  "Parse_layout v0 = do {
     (y, v1) \<leftarrow> get_year v0;
     v2 \<leftarrow> skip v1 ''-'';
     (mo, v3) \<leftarrow> getnum v2 True;
     guard (\<not> (mo = 0 \<or> 12 < mo));
     v4 \<leftarrow> skip v3 ''-'';
     (d, v5) \<leftarrow> getnum v4 True;
     v6 \<leftarrow> skip v5 ''T'';
     (h, v7) \<leftarrow> getnum v6 False;
     guard (\<not> 24 \<le> h);
     v8 \<leftarrow> skip v7 '':'';
     (mi, v9) \<leftarrow> getnum v8 True;
     guard (\<not> 60 \<le> mi);
     v10 \<leftarrow> skip v9 '':'';
     (sc, v11) \<leftarrow> getnum v10 True;
     guard (\<not> 60 \<le> sc);
     (ns, v12) \<leftarrow> Some (get_fraction v11);
     v13 \<leftarrow> skip v12 ''+00:00'';
     guard (v13 = []);
     guard (\<not> (d < 1 \<or> daysIn mo (int y) < d));
     Some (time_Date \<lparr>year = int y, month = mo, day = d,
                      hour = h, minute = mi, second = sc\<rparr> ns)
   }"

section \<open>The cache file\<close>

text \<open>
  \<^verbatim>\<open>ExpireTime\<close> is a \<^verbatim>\<open>time.Time\<close> with its own JSON form (main.go, lines 217
  to 232): \<^verbatim>\<open>MarshalJSON\<close> formats with the layout and marshals the string;
  \<^verbatim>\<open>UnmarshalJSON\<close> trims the quotes at both ends and parses with the layout.
\<close>

definition ExpireTime_MarshalJSON :: "Time \<Rightarrow> string" where
  "ExpireTime_MarshalJSON e = json_string (Format_layout e)"

definition strings_Trim :: "string \<Rightarrow> char \<Rightarrow> string" where
  "strings_Trim s c = rev (dropWhile (\<lambda>x. x = c) (rev (dropWhile (\<lambda>x. x = c) s)))"

definition ExpireTime_UnmarshalJSON :: "string \<Rightarrow> Time option" where
  "ExpireTime_UnmarshalJSON data = Parse_layout (strings_Trim data (CHR 0x22))"

section \<open>The JSON decoder\<close>

text \<open>
  \<^verbatim>\<open>json.Unmarshal\<close> first checks that the whole input is one well-formed JSON
  value and then decodes it into the Go value. The model splits the input into
  tokens, builds the value with a stack of open arrays and objects (as Go's scanner
  keeps a stack of parse states), and decodes the result into the struct.
\<close>

subsection \<open>Tokens\<close>

datatype token =
  TLBrace | TRBrace | TLBrack | TRBrack | TColon | TComma
  | TStr string  \<comment> \<open>the bytes between the quotes, escapes not yet resolved\<close>
  | TLit string  \<comment> \<open>a number or one of \<^verbatim>\<open>true\<close>, \<^verbatim>\<open>false\<close>, \<^verbatim>\<open>null\<close>\<close>
  | TBad         \<comment> \<open>a string without its closing quote\<close>

datatype lexmode = LIdle | LStr string bool | LLit string

definition json_space :: "char \<Rightarrow> bool" where
  "json_space c = (byte c = 32 \<or> byte c = 9 \<or> byte c = 13 \<or> byte c = 10)"

definition structural :: "char \<Rightarrow> token option" where
  "structural c =
     (if c = CHR ''{'' then Some TLBrace else if c = CHR ''}'' then Some TRBrace
      else if c = CHR ''['' then Some TLBrack else if c = CHR '']'' then Some TRBrack
      else if c = CHR '':'' then Some TColon else if c = CHR '','' then Some TComma
      else None)"

text \<open>
  In a string the accumulator holds the bytes read so far, reversed, and the flag
  says that the last byte was a backslash that escapes the next one.
\<close>

fun lex :: "lexmode \<Rightarrow> string \<Rightarrow> token list" where
  "lex LIdle [] = []"
| "lex (LStr acc esc) [] = [TBad]"
| "lex (LLit acc) [] = [TLit (rev acc)]"
| "lex LIdle (c # cs) =
     (if json_space c then lex LIdle cs
      else case structural c of
        Some t \<Rightarrow> t # lex LIdle cs
      | None \<Rightarrow> if c = CHR 0x22 then lex (LStr [] False) cs else lex (LLit [c]) cs)"
| "lex (LStr acc True) (c # cs) = lex (LStr (c # acc) False) cs"
| "lex (LStr acc False) (c # cs) =
     (if c = CHR 0x22 then TStr (rev acc) # lex LIdle cs
      else lex (LStr (c # acc) (c = CHR 0x5C)) cs)"
| "lex (LLit acc) (c # cs) =
     (if json_space c then TLit (rev acc) # lex LIdle cs
      else case structural c of
        Some t \<Rightarrow> TLit (rev acc) # t # lex LIdle cs
      | None \<Rightarrow> if c = CHR 0x22 then TLit (rev acc) # lex (LStr [] False) cs
                else lex (LLit (c # acc)) cs)"

subsection \<open>String literals\<close>

definition hexval :: "char \<Rightarrow> nat option" where
  "hexval c =
     (let b = byte c
      in if 48 \<le> b \<and> b \<le> 57 then Some (b - 48)
         else if 97 \<le> b \<and> b \<le> 102 then Some (b - 87)
         else if 65 \<le> b \<and> b \<le> 70 then Some (b - 55)
         else None)"

text \<open>\<^verbatim>\<open>getu4\<close>: the code unit of a backslash, a \<^verbatim>\<open>u\<close> and four hexadecimal digits.\<close>

fun getu4 :: "string \<Rightarrow> nat option" where
  "getu4 (e # u # a # b # c # d # _) =
     (if e = CHR 0x5C \<and> u = CHR ''u'' then do {
        x3 \<leftarrow> hexval a; x2 \<leftarrow> hexval b; x1 \<leftarrow> hexval c; x0 \<leftarrow> hexval d;
        Some (((x3 * 16 + x2) * 16 + x1) * 16 + x0)
      } else None)"
| "getu4 _ = None"

text \<open>
  The body of a string literal is well formed when it has no control character and
  every backslash starts one of the escapes of JSON.
\<close>

fun valid_body :: "string \<Rightarrow> bool" where
  "valid_body [] = True"
| "valid_body (c # cs) =
     (if c = CHR 0x5C then
        (case cs of
           [] \<Rightarrow> False
         | e # r \<Rightarrow>
             if e = CHR ''u'' then getu4 (c # cs) \<noteq> None \<and> valid_body (drop 4 r)
             else e \<in> set [CHR 0x22, CHR 0x5C, CHR ''/'', CHR ''b'', CHR ''f'', CHR ''n'',
                            CHR ''r'', CHR ''t''] \<and> valid_body r)
      else 32 \<le> byte c \<and> valid_body cs)"

text \<open>\<^verbatim>\<open>utf8.EncodeRune\<close>; a surrogate or a value above \<^verbatim>\<open>U+10FFFF\<close> is written as \<^verbatim>\<open>U+FFFD\<close>.\<close>

definition utf8_EncodeRune :: "nat \<Rightarrow> string" where
  "utf8_EncodeRune r =
     (if r < 128 then [char_of r]
      else if r < 2048 then [char_of (192 + r div 64), char_of (128 + r mod 64)]
      else if (55296 \<le> r \<and> r < 57344) \<or> 1114111 < r then [CHR 0xEF, CHR 0xBF, CHR 0xBD]
      else if r < 65536
        then [char_of (224 + r div 4096), char_of (128 + r div 64 mod 64), char_of (128 + r mod 64)]
      else [char_of (240 + r div 262144), char_of (128 + r div 4096 mod 64),
            char_of (128 + r div 64 mod 64), char_of (128 + r mod 64)])"

text \<open>\<^verbatim>\<open>utf16.DecodeRune\<close>: \<open>None\<close> where Go returns \<^verbatim>\<open>U+FFFD\<close>.\<close>

definition utf16_DecodeRune :: "nat \<Rightarrow> nat option \<Rightarrow> nat option" where
  "utf16_DecodeRune r1 r2 =
     (case r2 of
        None \<Rightarrow> None
      | Some x \<Rightarrow>
          if 55296 \<le> r1 \<and> r1 < 56320 \<and> 56320 \<le> x \<and> x < 57344
          then Some ((r1 - 55296) * 1024 + (x - 56320) + 65536) else None)"

definition unescape :: "char \<Rightarrow> char" where
  "unescape e =
     (if e = CHR ''b'' then CHR 0x08 else if e = CHR ''f'' then CHR 0x0C
      else if e = CHR ''n'' then CHR 0x0A else if e = CHR ''r'' then CHR 0x0D
      else if e = CHR ''t'' then CHR 0x09 else e)"

text \<open>
  \<^verbatim>\<open>unquote\<close> of \<^verbatim>\<open>encoding/json\<close> on a well-formed body: escapes are resolved, a
  pair of surrogates gives one rune, a lone surrogate and a byte that starts no
  well-formed UTF-8 encoding give \<^verbatim>\<open>U+FFFD\<close>.
\<close>

function json_unquote :: "string \<Rightarrow> string" where
  "json_unquote [] = []"
| "json_unquote (c # cs) =
     (if c = CHR 0x5C then
        (case cs of
           [] \<Rightarrow> []
         | e # r \<Rightarrow>
             if e = CHR ''u'' then
               (case getu4 (c # cs) of
                  None \<Rightarrow> []
                | Some rr \<Rightarrow>
                    if 55296 \<le> rr \<and> rr < 57344 then
                      (case utf16_DecodeRune rr (getu4 (drop 4 r)) of
                         Some dec \<Rightarrow> utf8_EncodeRune dec @ json_unquote (drop 10 r)
                       | None \<Rightarrow> utf8_EncodeRune 65533 @ json_unquote (drop 4 r))
                    else utf8_EncodeRune rr @ json_unquote (drop 4 r))
             else unescape e # json_unquote r)
      else if byte c < 128 then c # json_unquote cs
      else
        let n = utf8_width (map byte (take 4 (c # cs)))
        in if n = 0 then utf8_EncodeRune 65533 @ json_unquote cs
           else take n (c # cs) @ json_unquote (drop (n - 1) cs))"
  by pat_completeness auto
termination
  by (relation "measure length") auto

declare json_unquote.simps(2) [simp del]

subsection \<open>Numbers and the other literals\<close>

definition is_digit :: "char \<Rightarrow> bool" where
  "is_digit c = (48 \<le> byte c \<and> byte c \<le> 57)"

definition valid_exp :: "string \<Rightarrow> bool" where
  "valid_exp s =
     (case s of
        [] \<Rightarrow> True
      | c # r \<Rightarrow>
          (c = CHR ''e'' \<or> c = CHR ''E'') \<and>
          (let r1 = (case r of [] \<Rightarrow> [] | x # r' \<Rightarrow> if x = CHR ''+'' \<or> x = CHR ''-'' then r' else r)
           in r1 \<noteq> [] \<and> list_all is_digit r1))"

definition valid_frac :: "string \<Rightarrow> bool" where
  "valid_frac s =
     (case s of
        [] \<Rightarrow> True
      | c # r \<Rightarrow>
          if c = CHR ''.'' then r \<noteq> [] \<and> is_digit (hd r) \<and> valid_exp (dropWhile is_digit r)
          else valid_exp s)"

definition valid_number :: "string \<Rightarrow> bool" where
  "valid_number s =
     (case (case s of [] \<Rightarrow> [] | c # r \<Rightarrow> if c = CHR ''-'' then r else s) of
        [] \<Rightarrow> False
      | c # r \<Rightarrow>
          if c = CHR ''0'' then valid_frac r
          else is_digit c \<and> valid_frac (dropWhile is_digit r))"

subsection \<open>Values\<close>

datatype json =
  JNull | JBool bool | JNum string | JStr string
  | JArr "json list" | JObj "(string \<times> json) list"

text \<open>
  A string value keeps the body as it is in the input, because an
  \<^verbatim>\<open>Unmarshaler\<close> receives the text of the value; the key of a member is unquoted.
\<close>

definition scalar :: "token \<Rightarrow> json option" where
  "scalar t =
     (case t of
        TStr raw \<Rightarrow> if valid_body raw then Some (JStr raw) else None
      | TLit raw \<Rightarrow>
          if raw = ''null'' then Some JNull
          else if raw = ''true'' then Some (JBool True)
          else if raw = ''false'' then Some (JBool False)
          else if valid_number raw then Some (JNum raw) else None
      | _ \<Rightarrow> None)"

datatype frame =
  FArr "json list"
  | FObj "(string \<times> json) list"
  | FKey "(string \<times> json) list" string  \<comment> \<open>an object whose next value belongs to this key\<close>

datatype expect = EValue | EValueOrEnd | EKeyOrEnd | EKey | EColon | EAfter | EDone

text \<open>A complete value goes to the array or the member that is open, or is the result.\<close>

fun attach :: "json \<Rightarrow> frame list \<Rightarrow> (expect \<times> frame list \<times> json option) option" where
  "attach v [] = Some (EDone, [], Some v)"
| "attach v (FArr es # st) = Some (EAfter, FArr (v # es) # st, None)"
| "attach v (FKey ms k # st) = Some (EAfter, FObj ((k, v) # ms) # st, None)"
| "attach v (FObj ms # st) = None"

text \<open>Go's scanner refuses more than 10000 open arrays and objects.\<close>

definition push :: "frame \<Rightarrow> expect \<Rightarrow> frame list \<Rightarrow> (expect \<times> frame list \<times> json option) option" where
  "push f e st = (if 10000 \<le> length st then None else Some (e, f # st, None))"

definition close_array :: "frame list \<Rightarrow> (expect \<times> frame list \<times> json option) option" where
  "close_array st = (case st of FArr es # st' \<Rightarrow> attach (JArr (rev es)) st' | _ \<Rightarrow> None)"

definition close_object :: "frame list \<Rightarrow> (expect \<times> frame list \<times> json option) option" where
  "close_object st = (case st of FObj ms # st' \<Rightarrow> attach (JObj (rev ms)) st' | _ \<Rightarrow> None)"

definition begin_value :: "token \<Rightarrow> frame list \<Rightarrow> (expect \<times> frame list \<times> json option) option" where
  "begin_value t st =
     (if t = TLBrace then push (FObj []) EKeyOrEnd st
      else if t = TLBrack then push (FArr []) EValueOrEnd st
      else case scalar t of None \<Rightarrow> None | Some v \<Rightarrow> attach v st)"

definition begin_key :: "token \<Rightarrow> frame list \<Rightarrow> (expect \<times> frame list \<times> json option) option" where
  "begin_key t st =
     (case (t, st) of
        (TStr raw, FObj ms # st') \<Rightarrow>
          if valid_body raw then Some (EColon, FKey ms (json_unquote raw) # st', None) else None
      | _ \<Rightarrow> None)"

definition step :: "expect \<Rightarrow> frame list \<Rightarrow> token \<Rightarrow> (expect \<times> frame list \<times> json option) option" where
  "step e st t =
     (case e of
        EValue \<Rightarrow> begin_value t st
      | EValueOrEnd \<Rightarrow> if t = TRBrack then close_array st else begin_value t st
      | EKeyOrEnd \<Rightarrow> if t = TRBrace then close_object st else begin_key t st
      | EKey \<Rightarrow> begin_key t st
      | EColon \<Rightarrow> if t = TColon then Some (EValue, st, None) else None
      | EAfter \<Rightarrow>
          if t = TComma then
            (case st of FArr es # st' \<Rightarrow> Some (EValue, st, None)
                      | FObj ms # st' \<Rightarrow> Some (EKey, st, None)
                      | _ \<Rightarrow> None)
          else if t = TRBrack then close_array st
          else if t = TRBrace then close_object st
          else None
      | EDone \<Rightarrow> None)"

fun build :: "expect \<Rightarrow> frame list \<Rightarrow> json option \<Rightarrow> token list \<Rightarrow> json option" where
  "build e st res [] = (if e = EDone then res else None)"
| "build e st res (t # ts) =
     (case step e st t of
        None \<Rightarrow> None
      | Some (e', st', res') \<Rightarrow> build e' st' (if res' = None then res else res') ts)"

definition json_parse :: "string \<Rightarrow> json option" where
  "json_parse data = build EValue [] None (lex LIdle data)"

subsection \<open>Decoding into the struct\<close>

text \<open>
  \<^verbatim>\<open>CLICompatCacheItem\<close> and \<^verbatim>\<open>CachedCredentials\<close> (main.go, lines 206 to 215).
  The field \<^verbatim>\<open>Credentials\<close> is a pointer; \<open>None\<close> is \<^verbatim>\<open>nil\<close>.
\<close>

record CachedCredentials =
  AccessKeyId :: string
  SecretAccessKey :: string
  SessionToken :: string
  Expiration :: Time

record CLICompatCacheItem =
  Credentials :: "CachedCredentials option"

text \<open>The zero \<^verbatim>\<open>time.Time\<close> is 0001-01-01T00:00:00Z.\<close>

definition zero_Time :: Time where
  "zero_Time = \<lparr>unix = - 62135596800, nanos = 0, zone = 0\<rparr>"

definition zero_CachedCredentials :: CachedCredentials where
  "zero_CachedCredentials =
     \<lparr>AccessKeyId = [], SecretAccessKey = [], SessionToken = [], Expiration = zero_Time\<rparr>"

text \<open>
  The name of a field matches a key when both are equal after case folding. The
  names of the two structs are ASCII, so that only the folding of the key to ASCII
  capitals matters: a small letter, the long s (\<^verbatim>\<open>U+017F\<close>, bytes \<^verbatim>\<open>C5 BF\<close>) and the
  Kelvin sign (\<^verbatim>\<open>U+212A\<close>, bytes \<^verbatim>\<open>E2 84 AA\<close>). Every other byte is kept, and is
  no ASCII capital.
\<close>

function foldName :: "string \<Rightarrow> string" where
  "foldName [] = []"
| "foldName (c # cs) =
     (if 97 \<le> byte c \<and> byte c \<le> 122 then char_of (byte c - 32) # foldName cs
      else if map byte (take 2 (c # cs)) = [197, 191] then CHR ''S'' # foldName (drop 1 cs)
      else if map byte (take 3 (c # cs)) = [226, 132, 170] then CHR ''K'' # foldName (drop 2 cs)
      else c # foldName cs)"
  by pat_completeness auto
termination
  by (relation "measure length") auto

declare foldName.simps(2) [simp del]

text \<open>
  A string field takes a JSON string, is left as it is by \<^verbatim>\<open>null\<close>, and any other
  value is an error of \<^verbatim>\<open>Unmarshal\<close> (\<open>None\<close>).
\<close>

definition decode_string :: "json \<Rightarrow> string \<Rightarrow> string option" where
  "decode_string v old =
     (case v of JStr raw \<Rightarrow> Some (json_unquote raw) | JNull \<Rightarrow> Some old | _ \<Rightarrow> None)"

text \<open>
  \<^verbatim>\<open>Expiration\<close> has the method \<^verbatim>\<open>UnmarshalJSON\<close>, which receives the text of the
  value, whatever its kind, also for \<^verbatim>\<open>null\<close>. The text of an array or of an object
  begins with a bracket, where \<^verbatim>\<open>time.Parse\<close> wants the first digit of the year.
\<close>

definition decode_ExpireTime :: "json \<Rightarrow> Time option" where
  "decode_ExpireTime v =
     (case v of
        JStr raw \<Rightarrow> ExpireTime_UnmarshalJSON ([CHR 0x22] @ raw @ [CHR 0x22])
      | JNull \<Rightarrow> ExpireTime_UnmarshalJSON ''null''
      | JBool b \<Rightarrow> ExpireTime_UnmarshalJSON (if b then ''true'' else ''false'')
      | JNum raw \<Rightarrow> ExpireTime_UnmarshalJSON raw
      | JArr _ \<Rightarrow> None
      | JObj _ \<Rightarrow> None)"

fun decode_CachedCredentials ::
  "(string \<times> json) list \<Rightarrow> CachedCredentials \<Rightarrow> CachedCredentials option" where
  "decode_CachedCredentials [] c = Some c"
| "decode_CachedCredentials ((k, v) # ms) c =
     (if foldName k = ''ACCESSKEYID'' then
        Option.bind (decode_string v (AccessKeyId c))
          (\<lambda>s. decode_CachedCredentials ms (c\<lparr>AccessKeyId := s\<rparr>))
      else if foldName k = ''SECRETACCESSKEY'' then
        Option.bind (decode_string v (SecretAccessKey c))
          (\<lambda>s. decode_CachedCredentials ms (c\<lparr>SecretAccessKey := s\<rparr>))
      else if foldName k = ''SESSIONTOKEN'' then
        Option.bind (decode_string v (SessionToken c))
          (\<lambda>s. decode_CachedCredentials ms (c\<lparr>SessionToken := s\<rparr>))
      else if foldName k = ''EXPIRATION'' then
        Option.bind (decode_ExpireTime v)
          (\<lambda>t. decode_CachedCredentials ms (c\<lparr>Expiration := t\<rparr>))
      else decode_CachedCredentials ms c)"

text \<open>
  The pointer \<^verbatim>\<open>Credentials\<close> is set to \<^verbatim>\<open>nil\<close> by \<^verbatim>\<open>null\<close>; an object is decoded
  into the struct it points to, which is allocated when the pointer is \<^verbatim>\<open>nil\<close>.
\<close>

fun decode_CLICompatCacheItem ::
  "(string \<times> json) list \<Rightarrow> CLICompatCacheItem \<Rightarrow> CLICompatCacheItem option" where
  "decode_CLICompatCacheItem [] it = Some it"
| "decode_CLICompatCacheItem ((k, v) # ms) it =
     (if foldName k = ''CREDENTIALS'' then
        (case v of
           JNull \<Rightarrow> decode_CLICompatCacheItem ms (it\<lparr>Credentials := None\<rparr>)
         | JObj ms' \<Rightarrow>
             Option.bind
               (decode_CachedCredentials ms'
                  (case Credentials it of None \<Rightarrow> zero_CachedCredentials | Some c \<Rightarrow> c))
               (\<lambda>c. decode_CLICompatCacheItem ms (it\<lparr>Credentials := Some c\<rparr>))
         | _ \<Rightarrow> None)
      else decode_CLICompatCacheItem ms it)"

text \<open>
  \<^verbatim>\<open>json.Unmarshal(data, &v)\<close> for a zero \<^verbatim>\<open>v\<close> of type \<^verbatim>\<open>CLICompatCacheItem\<close>;
  \<open>None\<close> where Go returns an error. The value \<^verbatim>\<open>null\<close> leaves \<^verbatim>\<open>v\<close> as it is.
\<close>

definition json_Unmarshal :: "string \<Rightarrow> CLICompatCacheItem option" where
  "json_Unmarshal data =
     (case json_parse data of
        None \<Rightarrow> None
      | Some (JObj ms) \<Rightarrow> decode_CLICompatCacheItem ms \<lparr>Credentials = None\<rparr>
      | Some JNull \<Rightarrow> Some \<lparr>Credentials = None\<rparr>
      | Some _ \<Rightarrow> None)"

text \<open>
  \<^verbatim>\<open>json.Marshal\<close> of an item whose pointer is set, as \<^verbatim>\<open>save\<close> builds it. The
  output of \<^verbatim>\<open>ExpireTime.MarshalJSON\<close> is a string literal without white space, which
  the encoder copies. No value of these types makes \<^verbatim>\<open>Marshal\<close> fail.
\<close>

definition json_Marshal_CachedCredentials :: "CachedCredentials \<Rightarrow> string" where
  \<open>json_Marshal_CachedCredentials c =
     ''{"AccessKeyId":'' @ json_string (AccessKeyId c) @
     '',"SecretAccessKey":'' @ json_string (SecretAccessKey c) @
     '',"SessionToken":'' @ json_string (SessionToken c) @
     '',"Expiration":'' @ ExpireTime_MarshalJSON (Expiration c) @ ''}''\<close>

definition json_Marshal_item :: "CLICompatCacheItem \<Rightarrow> string" where
  \<open>json_Marshal_item it =
     ''{"Credentials":'' @
     (case Credentials it of None \<Rightarrow> ''null'' | Some c \<Rightarrow> json_Marshal_CachedCredentials c) @ ''}''\<close>

section \<open>The environment of the program\<close>

text \<open>
  A path is the list of its components, so that \<^verbatim>\<open>filepath.Join\<close> appends and
  \<^verbatim>\<open>filepath.Dir\<close> drops the last component. The file system maps a path to a
  directory (with the permission to create entries in it) or to a regular file (its
  content, and the permissions to read and to write it).
\<close>

type_synonym path = "string list"

datatype node =
  Dir bool
  | File string bool bool

datatype os_error = ENOENT | EACCES | EISDIR | ENOTDIR

text \<open>
  The trace records what the program does to its environment, in order: the calls
  into the file system and the calls of the upstream provider.
\<close>

datatype event =
  EvStat path
  | EvReadFile path
  | EvMkdirAll path
  | EvWriteFile path string
  | EvRetrieve

record world =
  fs :: "path \<Rightarrow> node option"
  home :: "path option"  \<comment> \<open>the home directory of \<^verbatim>\<open>user.Current\<close>; \<open>None\<close> when it fails\<close>
  now :: Time            \<comment> \<open>the current time that \<^verbatim>\<open>Credentials.Expired\<close> reads\<close>
  trace :: "event list"

definition log_event :: "event \<Rightarrow> world \<Rightarrow> world" where
  "log_event e w = w\<lparr>trace := trace w @ [e]\<rparr>"

text \<open>\<^verbatim>\<open>os.Stat\<close>; the result says whether the error is \<^verbatim>\<open>nil\<close>.\<close>

definition os_Stat :: "path \<Rightarrow> world \<Rightarrow> bool \<times> world" where
  "os_Stat p w = (fs w p \<noteq> None, log_event (EvStat p) w)"

definition os_ReadFile :: "path \<Rightarrow> world \<Rightarrow> (os_error + string) \<times> world" where
  "os_ReadFile p w =
     (case fs w p of
        None \<Rightarrow> Inl ENOENT
      | Some (Dir _) \<Rightarrow> Inl EISDIR
      | Some (File data r _) \<Rightarrow> if r then Inr data else Inl EACCES,
      log_event (EvReadFile p) w)"

text \<open>
  \<^verbatim>\<open>os.MkdirAll\<close>: nothing to do for a directory, an error for a file; otherwise
  the missing directories are made from the top, each in a directory that allows it.
\<close>

fun mkdir_from :: "path \<Rightarrow> string list \<Rightarrow> (path \<Rightarrow> node option) \<Rightarrow> os_error + (path \<Rightarrow> node option)" where
  "mkdir_from done [] f = Inr f"
| "mkdir_from done (c # cs) f =
     (case f (done @ [c]) of
        Some (Dir _) \<Rightarrow> mkdir_from (done @ [c]) cs f
      | Some (File _ _ _) \<Rightarrow> Inl ENOTDIR
      | None \<Rightarrow>
          if f done = Some (Dir True) then mkdir_from (done @ [c]) cs (f(done @ [c] \<mapsto> Dir True))
          else Inl EACCES)"

definition os_MkdirAll :: "path \<Rightarrow> world \<Rightarrow> os_error option \<times> world" where
  "os_MkdirAll p w =
     (case fs w p of
        Some (Dir _) \<Rightarrow> (None, log_event (EvMkdirAll p) w)
      | Some (File _ _ _) \<Rightarrow> (Some ENOTDIR, log_event (EvMkdirAll p) w)
      | None \<Rightarrow>
          (case mkdir_from [] p (fs w) of
             Inl e \<Rightarrow> (Some e, log_event (EvMkdirAll p) w)
           | Inr f \<Rightarrow> (None, log_event (EvMkdirAll p) (w\<lparr>fs := f\<rparr>))))"

text \<open>
  \<^verbatim>\<open>os.WriteFile(p, data, 0600)\<close>: the parent must be a directory; an existing
  file is truncated and written when it may be written; a new file, which its owner
  may read and write, is made when the directory allows it. The write succeeds or
  fails as a whole.
\<close>

definition write_node :: "(path \<Rightarrow> node option) \<Rightarrow> path \<Rightarrow> string \<Rightarrow> os_error + node" where
  "write_node f p data =
     (case f (butlast p) of
        None \<Rightarrow> Inl ENOENT
      | Some (File _ _ _) \<Rightarrow> Inl ENOTDIR
      | Some (Dir wd) \<Rightarrow>
          (case f p of
             Some (Dir _) \<Rightarrow> Inl EISDIR
           | Some (File _ r wr) \<Rightarrow> if wr then Inr (File data r True) else Inl EACCES
           | None \<Rightarrow> if wd then Inr (File data True True) else Inl EACCES))"

definition os_WriteFile :: "path \<Rightarrow> string \<Rightarrow> world \<Rightarrow> os_error option \<times> world" where
  "os_WriteFile p data w =
     (case write_node (fs w) p data of
        Inl e \<Rightarrow> (Some e, log_event (EvWriteFile p data) w)
      | Inr n \<Rightarrow> (None, log_event (EvWriteFile p data) (w\<lparr>fs := (fs w)(p \<mapsto> n)\<rparr>)))"

section \<open>The credential cache\<close>

text \<open>
  \<^verbatim>\<open>aws.Credentials\<close> of the SDK. The names of two fields carry a prime because
  \<^verbatim>\<open>CachedCredentials\<close> has fields of the same names.
\<close>

record aws_Credentials =
  AccessKeyID :: string
  SecretAccessKey' :: string
  SessionToken' :: string
  Source :: string
  CanExpire :: bool
  Expires :: Time

definition zero_Credentials :: aws_Credentials where
  "zero_Credentials =
     \<lparr>AccessKeyID = [], SecretAccessKey' = [], SessionToken' = [], Source = [],
      CanExpire = False, Expires = zero_Time\<rparr>"

text \<open>\<^verbatim>\<open>Credentials.Expired\<close>: credentials that can expire have expired unless the expiry is after the current time.\<close>

definition Expired :: "aws_Credentials \<Rightarrow> Time \<Rightarrow> bool" where
  "Expired v t = (CanExpire v \<and> \<not> After (Expires v) t)"

text \<open>The errors that the program returns, and the two ways in which it stops.\<close>

datatype error =
  ErrCacheMissing          \<comment> \<open>cache file does not exist\<close>
  | ErrReadCache os_error  \<comment> \<open>failed to read cache file\<close>
  | ErrDecodeCache         \<comment> \<open>failed to decode cache json\<close>
  | ErrMakeDirs os_error   \<comment> \<open>failed to make directories\<close>
  | ErrEncodeCache         \<comment> \<open>failed to encode cache json\<close>
  | ErrWriteCache os_error \<comment> \<open>failed to write cache file\<close>
  | ErrProvider string     \<comment> \<open>an error of the upstream provider\<close>

datatype abort =
  Fatal string       \<comment> \<open>\<^verbatim>\<open>log.Fatal\<close> with a message\<close>
  | FatalError error \<comment> \<open>\<^verbatim>\<open>log.Fatal\<close> with an error of the loader\<close>
  | NilDereference   \<comment> \<open>the panic of a read through a \<^verbatim>\<open>nil\<close> pointer\<close>

text \<open>
  The upstream provider is a parameter: \<^verbatim>\<open>Retrieve\<close> returns credentials and an
  error (\<open>None\<close> is \<^verbatim>\<open>nil\<close>), which may depend on the environment. A call is recorded
  in the trace.
\<close>

type_synonym CredentialsProvider = "world \<Rightarrow> aws_Credentials \<times> error option"

definition Retrieve :: "CredentialsProvider \<Rightarrow> world \<Rightarrow> (aws_Credentials \<times> error option) \<times> world" where
  "Retrieve p w = (p w, log_event EvRetrieve w)"

text \<open>\<^verbatim>\<open>CLICache\<close> (main.go, lines 60 to 65). An empty \<open>fullPath\<close> is the empty string of Go.\<close>

record CLICache =
  provider :: CredentialsProvider
  cacheKey :: computableCacheKey
  forceRefresh :: bool
  fullPath :: path

text \<open>
  \<^verbatim>\<open>CLICache.path\<close> (lines 85 to 94): the path is computed once and kept in the
  struct. \<^verbatim>\<open>fmt.Sprintf("%s.json", c.cacheKey)\<close> calls \<^verbatim>\<open>String\<close>.
\<close>

definition cache_file_name :: "computableCacheKey \<Rightarrow> string" where
  "cache_file_name k = computableCacheKey_String k @ ''.json''"

definition path :: "CLICache \<Rightarrow> world \<Rightarrow> (abort + path) \<times> CLICache" where
  "path c w =
     (if fullPath c = [] then
        (case home w of
           None \<Rightarrow> (Inl (Fatal ''user.Current''), c)
         | Some h \<Rightarrow>
             (let p = (h @ [''.aws'', ''cli'', ''cache'']) @ [cache_file_name (cacheKey c)]
              in (Inr p, c\<lparr>fullPath := p\<rparr>)))
      else (Inr (fullPath c), c))"

text \<open>\<^verbatim>\<open>CLICache.pathExists\<close> (lines 80 to 83).\<close>

definition pathExists :: "path \<Rightarrow> world \<Rightarrow> bool \<times> world" where
  "pathExists p w = os_Stat p w"

text \<open>
  \<^verbatim>\<open>CLICache.get\<close> (lines 119 to 145). The second call of \<^verbatim>\<open>c.path()\<close> returns
  the path that the first call has stored. \<^verbatim>\<open>v.Credentials\<close> is a pointer that
  \<^verbatim>\<open>Unmarshal\<close> leaves \<^verbatim>\<open>nil\<close> when the file has no such member: reading a field
  through it is a panic.
\<close>

definition get_decode :: "aws_Credentials \<Rightarrow> string \<Rightarrow> abort + (aws_Credentials \<times> error option)" where
  "get_decode creds data =
     (case json_Unmarshal data of
        None \<Rightarrow> Inr (creds, Some ErrDecodeCache)
      | Some v \<Rightarrow>
          (case Credentials v of
             None \<Rightarrow> Inl NilDereference
           | Some cc \<Rightarrow>
               Inr (creds\<lparr>AccessKeyID := AccessKeyId cc,
                          SecretAccessKey' := SecretAccessKey cc,
                          SessionToken' := SessionToken cc,
                          Expires := Expiration cc\<rparr>, None)))"

definition get :: "CLICache \<Rightarrow> world \<Rightarrow> (abort + (aws_Credentials \<times> error option)) \<times> CLICache \<times> world" where
  "get c w =
     (let creds = zero_Credentials\<lparr>CanExpire := True\<rparr>
      in case path c w of
        (Inl a, c1) \<Rightarrow> (Inl a, c1, w)
      | (Inr p, c1) \<Rightarrow>
          (case pathExists p w of
             (False, w1) \<Rightarrow> (Inr (creds, Some ErrCacheMissing), c1, w1)
           | (True, w1) \<Rightarrow>
               (case os_ReadFile p w1 of
                  (Inl e, w2) \<Rightarrow> (Inr (creds, Some (ErrReadCache e)), c1, w2)
                | (Inr data, w2) \<Rightarrow> (get_decode creds data, c1, w2))))"

text \<open>
  \<^verbatim>\<open>CLICache.save\<close> (lines 147 to 176). \<^verbatim>\<open>MkdirAll\<close> is called only when the
  directory of the cache file exists already. \<^verbatim>\<open>json.Marshal\<close> does not fail on
  an item, so the branch of the encoding error is never taken.
\<close>

definition save_item :: "aws_Credentials \<Rightarrow> CLICompatCacheItem" where
  "save_item creds =
     \<lparr>Credentials = Some \<lparr>AccessKeyId = AccessKeyID creds,
                           SecretAccessKey = SecretAccessKey' creds,
                           SessionToken = SessionToken' creds,
                           Expiration = Expires creds\<rparr>\<rparr>"

definition save_mkdir :: "path \<Rightarrow> world \<Rightarrow> os_error option \<times> world" where
  "save_mkdir dir w =
     (case pathExists dir w of
        (True, w1) \<Rightarrow> os_MkdirAll dir w1
      | (False, w1) \<Rightarrow> (None, w1))"

definition save :: "CLICache \<Rightarrow> aws_Credentials \<Rightarrow> world \<Rightarrow> (abort + error option) \<times> CLICache \<times> world" where
  "save c creds w =
     (case path c w of
        (Inl a, c1) \<Rightarrow> (Inl a, c1, w)
      | (Inr p, c1) \<Rightarrow>
          (case save_mkdir (butlast p) w of
             (Some e, w1) \<Rightarrow> (Inr (Some (ErrMakeDirs e)), c1, w1)
           | (None, w1) \<Rightarrow>
               (case os_WriteFile p (json_Marshal_item (save_item creds)) w1 of
                  (Some e, w2) \<Rightarrow> (Inr (Some (ErrWriteCache e)), c1, w2)
                | (None, w2) \<Rightarrow> (Inr None, c1, w2))))"

text \<open>
  \<^verbatim>\<open>CLICache.Load\<close> (lines 96 to 117), in two parts: the look into the cache
  (lines 98 to 103), whose result \<open>Some\<close> is the early return with the cached
  credentials, and the fall back on the provider (lines 106 to 116).
\<close>

definition Load_cached :: "CLICache \<Rightarrow> world \<Rightarrow> (abort + aws_Credentials option) \<times> CLICache \<times> world" where
  "Load_cached c w =
     (if \<not> forceRefresh c then
        (case get c w of
           (Inl a, c1, w1) \<Rightarrow> (Inl a, c1, w1)
         | (Inr (creds, err), c1, w1) \<Rightarrow>
             if err = None \<and> \<not> Expired creds (now w1) then (Inr (Some creds), c1, w1)
             else (Inr None, c1, w1))
      else (Inr None, c, w))"

definition Load_provider :: "CLICache \<Rightarrow> world \<Rightarrow> (abort + (aws_Credentials \<times> error option)) \<times> CLICache \<times> world" where
  "Load_provider c w =
     (case Retrieve (provider c) w of
        ((creds, Some e), w1) \<Rightarrow> (Inr (creds, Some e), c, w1)
      | ((creds, None), w1) \<Rightarrow>
          (case save c creds w1 of
             (Inl a, c2, w2) \<Rightarrow> (Inl a, c2, w2)
           | (Inr err, c2, w2) \<Rightarrow> (Inr (creds, err), c2, w2)))"

definition Load :: "CLICache \<Rightarrow> world \<Rightarrow> (abort + (aws_Credentials \<times> error option)) \<times> CLICache \<times> world" where
  "Load c w =
     (case Load_cached c w of
        (Inl a, c1, w1) \<Rightarrow> (Inl a, c1, w1)
      | (Inr (Some creds), c1, w1) \<Rightarrow> (Inr (creds, None), c1, w1)
      | (Inr None, c1, w1) \<Rightarrow> Load_provider c1 w1)"

section \<open>The main program\<close>

text \<open>
  The flags (lines 32 to 58); \<open>duration\<close> is a \<^verbatim>\<open>time.Duration\<close>, a number of
  nanoseconds. The options of the assume-role provider that \<^verbatim>\<open>NewCache\<close> reads;
  a pointer to a string is an option.
\<close>

record flags =
  profile :: string
  noCache :: bool
  mfaYK :: bool
  forceRefresh_flag :: bool
  asVars :: bool
  duration :: int

record AssumeRoleOptions =
  RoleARN :: string
  ExternalID :: "string option"
  SerialNumber_opt :: "string option"
  Duration :: int

definition aws_ToString :: "string option \<Rightarrow> string" where
  "aws_ToString p = (case p of None \<Rightarrow> [] | Some s \<Rightarrow> s)"

text \<open>
  \<^verbatim>\<open>int(d.Seconds())\<close>: the whole seconds of the duration, rounded towards zero.
  \<^verbatim>\<open>Seconds\<close> computes in floating point, which is exact for the durations that pass
  the check of \<^verbatim>\<open>main\<close> and for zero.
\<close>

definition Duration_Seconds :: "int \<Rightarrow> int" where
  "Duration_Seconds d = sgn d * (\<bar>d\<bar> div 1000000000)"

text \<open>\<^verbatim>\<open>NewCache\<close> (lines 67 to 78).\<close>

definition NewCache :: "CredentialsProvider \<Rightarrow> bool \<Rightarrow> AssumeRoleOptions \<Rightarrow> CLICache" where
  "NewCache p force opts =
     \<lparr>provider = p,
      cacheKey = \<lparr>DurationSeconds = Duration_Seconds (Duration opts),
                  ExternalId = aws_ToString (ExternalID opts),
                  RoleArn = RoleARN opts,
                  SerialNumber = aws_ToString (SerialNumber_opt opts)\<rparr>,
      forceRefresh = force,
      fullPath = []\<rparr>"

definition Minute :: int where "Minute = 60 * 1000000000"
definition Hour :: int where "Hour = 60 * Minute"

text \<open>The check of the duration (lines 319 to 324).\<close>

definition duration_ok :: "int \<Rightarrow> bool" where
  "duration_ok d = (Minute * 15 \<le> d \<and> d \<le> Hour * 12)"

text \<open>
  The choice of the loader and its call (lines 359 to 370): without the cache the
  provider is called directly; an error of the loader is fatal.
\<close>

definition load_credentials ::
  "flags \<Rightarrow> CredentialsProvider \<Rightarrow> AssumeRoleOptions \<Rightarrow> world \<Rightarrow> (abort + aws_Credentials) \<times> world" where
  "load_credentials fl p opts w =
     (if noCache fl then
        (case Retrieve p w of
           ((creds, Some e), w1) \<Rightarrow> (Inl (FatalError e), w1)
         | ((creds, None), w1) \<Rightarrow> (Inr creds, w1))
      else
        (case Load (NewCache p (forceRefresh_flag fl) opts) w of
           (Inl a, c1, w1) \<Rightarrow> (Inl a, w1)
         | (Inr (creds, Some e), c1, w1) \<Rightarrow> (Inl (FatalError e), w1)
         | (Inr (creds, None), c1, w1) \<Rightarrow> (Inr creds, w1)))"

text \<open>
  \<^verbatim>\<open>main\<close> up to the credentials that it prints (lines 316 to 370). The result of
  \<^verbatim>\<open>config.LoadDefaultConfig\<close> is a parameter: an error, or the provider together
  with the options that the callback has saved.
\<close>

definition main :: "flags \<Rightarrow> string + (CredentialsProvider \<times> AssumeRoleOptions) \<Rightarrow> world \<Rightarrow> (abort + aws_Credentials) \<times> world" where
  "main fl cfg w =
     (if \<not> duration_ok (duration fl)
      then (Inl (Fatal ''duration must be between 15 minutes and 12 hours''), w)
      else case cfg of
        Inl e \<Rightarrow> (Inl (Fatal e), w)
      | Inr (p, opts) \<Rightarrow> load_credentials fl p opts w)"

section \<open>Example values\<close>

text \<open>
  Credentials, a cache, and worlds in which the home directory is \<^verbatim>\<open>/home/u\<close>, for
  the evaluation of the program on concrete inputs.
\<close>

definition creds0 :: aws_Credentials where
  "creds0 = \<lparr>AccessKeyID = ''AKIAEXAMPLE'', SecretAccessKey' = ''secret'', SessionToken' = ''token'',
             Source = ''AssumeRoleProvider'', CanExpire = True,
             Expires = \<lparr>unix = 1709251199, nanos = 0, zone = 0\<rparr>\<rparr>"

definition key0 :: computableCacheKey where
  "key0 = \<lparr>DurationSeconds = 3600, ExternalId = [],
            RoleArn = ''arn:aws:iam::123456789012:role/test'', SerialNumber = []\<rparr>"

definition cache0 :: "bool \<Rightarrow> CLICache" where
  "cache0 force = \<lparr>provider = (\<lambda>w. (creds0, None)), cacheKey = key0, forceRefresh = force, fullPath = []\<rparr>"

definition dir0 :: path where
  "dir0 = [''home'', ''u'', ''.aws'', ''cli'', ''cache'']"

definition path0 :: path where
  "path0 = dir0 @ [cache_file_name key0]"

definition world0 :: "(path \<Rightarrow> node option) \<Rightarrow> Time \<Rightarrow> world" where
  "world0 f t = \<lparr>fs = f, home = Some [''home'', ''u''], now = t, trace = []\<rparr>"

definition data6 :: string where
  \<open>data6 = ''{"Credentials":{"Expiration":"2024-02-29T23:59:59+00:00"}}''\<close>

definition fs_truncated :: "path \<Rightarrow> node option" where
  \<open>fs_truncated = [dir0 \<mapsto> Dir True, path0 \<mapsto> File ''{"Credentials":'' True True]\<close>

definition fs_stale :: "path \<Rightarrow> node option" where
  "fs_stale = [dir0 \<mapsto> Dir True, path0 \<mapsto> File data6 True True]"

definition fs_file_at_dir :: "path \<Rightarrow> node option" where
  "fs_file_at_dir = [dir0 \<mapsto> File [] True True]"

text \<open>
  The world that \<open>save\<close> leaves when it writes credentials over the stale file, and
  credentials that expire half a second after \<open>time6\<close>.
\<close>

definition world_saved :: "aws_Credentials \<Rightarrow> Time \<Rightarrow> world" where
  "world_saved creds t =
     \<lparr>fs = fs_stale(path0 \<mapsto> File (json_Marshal_item (save_item creds)) True True),
      home = Some [''home'', ''u''], now = t,
      trace = [EvStat dir0, EvMkdirAll dir0, EvWriteFile path0 (json_Marshal_item (save_item creds))]\<rparr>"

definition creds_half :: aws_Credentials where
  "creds_half = creds0\<lparr>Expires := \<lparr>unix = 1709251199, nanos = 500000000, zone = 0\<rparr>\<rparr>"

definition time6 :: Time where
  "time6 = \<lparr>unix = 1709251199, nanos = 0, zone = 0\<rparr>"

definition flags0 :: "bool \<Rightarrow> bool \<Rightarrow> int \<Rightarrow> flags" where
  "flags0 nc force d =
     \<lparr>profile = [], noCache = nc, mfaYK = False, forceRefresh_flag = force, asVars = False,
      duration = d\<rparr>"

definition opts0 :: AssumeRoleOptions where
  "opts0 = \<lparr>RoleARN = ''arn:aws:iam::123456789012:role/test'', ExternalID = None,
            SerialNumber_opt = None, Duration = 3600000000000\<rparr>"

section \<open>Properties of the calendar and of the layout\<close>

lemma year_of_days_parts:
  fixes d :: int
  defines "r \<equiv> d mod 146097"
  defines "b \<equiv> min 3 (r div 36524)"
  defines "r1 \<equiv> r - 36524 * b"
  defines "c \<equiv> r1 div 1461"
  defines "r2 \<equiv> r1 mod 1461"
  defines "e \<equiv> min 3 (r2 div 365)"
  shows "0 \<le> b" "b \<le> 3" "0 \<le> c" "c \<le> 24" "0 \<le> e" "e \<le> 3"
    and "0 \<le> r2 - 365 * e"
    and "d = 146097 * (d div 146097) + 36524 * b + 1461 * c + 365 * e + (r2 - 365 * e)"
    and "r2 - 365 * e < 365 \<or> (e = 3 \<and> (c \<noteq> 24 \<or> b = 3))"
    and "r2 - 365 * e < 366"
proof -
  have r: "0 \<le> r" "r < 146097" by (simp_all add: r_def)
  show b: "0 \<le> b" "b \<le> 3" using r by (simp_all add: b_def)
  have r1: "0 \<le> r1" "r1 < 36524 \<or> (b = 3 \<and> r1 \<le> 36524)"
    using r unfolding r1_def b_def min_def by (simp_all split: if_splits, linarith+)
  show c: "0 \<le> c" "c \<le> 24" using r1 unfolding c_def by linarith+
  have r2: "0 \<le> r2" "r2 < 1461" "r1 = 1461 * c + r2" by (simp_all add: r2_def c_def)
  show e: "0 \<le> e" "e \<le> 3" using r2 by (simp_all add: e_def)
  show yd0: "0 \<le> r2 - 365 * e" 
    using r2 unfolding e_def min_def by (simp split: if_splits, linarith)
  have yd: "r2 - 365 * e < 365 \<or> (e = 3 \<and> r2 - 365 * e \<le> 365)"
    using r2 unfolding e_def min_def by (simp split: if_splits, linarith)
  have d: "d = 146097 * (d div 146097) + r" by (simp add: r_def)
  show "d = 146097 * (d div 146097) + 36524 * b + 1461 * c + 365 * e + (r2 - 365 * e)"
    using d r2(3) unfolding r1_def by linarith
  have "b \<noteq> 3 \<Longrightarrow> r1 < 36524" using r1 by linarith
  then have "c = 24 \<Longrightarrow> b \<noteq> 3 \<Longrightarrow> r2 < 1460" using r2(3) by linarith
  then show "r2 - 365 * e < 365 \<or> (e = 3 \<and> (c \<noteq> 24 \<or> b = 3))" using yd by linarith
  show "r2 - 365 * e < 366" using yd by linarith
qed

lemma div_decomp: 
  fixes a r :: int assumes "0 \<le> r" "r < k"
  shows "(k * a + r) div k = a"
  using assms by (simp add: div_pos_pos_trivial)

lemma days_before_year_decomp:
  fixes a b c e :: int
  assumes "0 \<le> b" "b \<le> 3" "0 \<le> c" "c \<le> 24" "0 \<le> e" "e \<le> 3"
  shows "days_before_year (400 * a + 100 * b + 4 * c + e + 1)
           = 146097 * a + 36524 * b + 1461 * c + 365 * e"
proof -
  let ?y = "400 * a + 100 * b + 4 * c + e"
  have d400: "?y div 400 = a"
    using div_decomp [of "100 * b + 4 * c + e" 400 a] assms by (simp add: algebra_simps)
  have d100: "?y div 100 = 4 * a + b" 
    using div_decomp [of "4 * c + e" 100 "4 * a + b"] assms by (simp add: algebra_simps)
  have d4: "?y div 4 = 100 * a + 25 * b + c" 
    using div_decomp [of "e" 4 "100 * a + 25 * b + c"] assms by (simp add: algebra_simps)
  show ?thesis unfolding days_before_year_def using d400 d100 d4 by simp
qed

lemma mod_decomp: 
  fixes a r :: int assumes "0 \<le> r" "r < k"
  shows "(k * a + r) mod k = r"
  using assms by (simp add: mod_pos_pos_trivial)

lemma mod_zero_range:
  fixes x k :: int
  assumes "0 < x" "x \<le> k"
  shows "x mod k = 0 \<longleftrightarrow> x = k"
  using assms by (cases "x = k") (auto simp: mod_pos_pos_trivial)

lemma isLeap_decomp:
  fixes a b c e :: int
  assumes "0 \<le> b" "b \<le> 3" "0 \<le> c" "c \<le> 24" "0 \<le> e" "e \<le> 3"
  shows "isLeap (400 * a + 100 * b + 4 * c + e + 1) \<longleftrightarrow> e = 3 \<and> (c \<noteq> 24 \<or> b = 3)"
proof -
  let ?y = "400 * a + 100 * b + 4 * c + e + 1"
  have m4: "?y mod 4 = (e + 1) mod 4" 
    using mod_add_left_eq [of "4 * (100 * a + 25 * b + c)" 4 "e + 1"] by (simp add: algebra_simps)
  have m100: "?y mod 100 = (4 * c + e + 1) mod 100"
    using mod_add_left_eq [of "100 * (4 * a + b)" 100 "4 * c + e + 1"] by (simp add: algebra_simps)
  have m400: "?y mod 400 = (100 * b + 4 * c + e + 1) mod 400"
    using mod_add_left_eq [of "400 * a" 400 "100 * b + 4 * c + e + 1"] by (simp add: algebra_simps)
  have e4: "(e + 1) mod 4 = 0 \<longleftrightarrow> e = 3" using assms(5,6) by presburger
  have c100: "(4 * c + e + 1) mod 100 = 0 \<longleftrightarrow> c = 24 \<and> e = 3"
  proof -
    have "0 < 4 * c + e + 1" "4 * c + e + 1 \<le> 100" using assms by auto
    then have "(4 * c + e + 1) mod 100 = 0 \<longleftrightarrow> 4 * c + e + 1 = 100" by (rule mod_zero_range)
    then show ?thesis using assms by linarith
  qed
  have b400: "(100 * b + 4 * c + e + 1) mod 400 = 0 \<longleftrightarrow> b = 3 \<and> c = 24 \<and> e = 3"
  proof -
    have "0 < 100 * b + 4 * c + e + 1" "100 * b + 4 * c + e + 1 \<le> 400" using assms by auto
    then have "(100 * b + 4 * c + e + 1) mod 400 = 0 \<longleftrightarrow> 100 * b + 4 * c + e + 1 = 400" by (rule mod_zero_range)
    then show ?thesis using assms by linarith
  qed
  show ?thesis unfolding isLeap_def m4 m100 m400 e4 c100 b400 by auto
qed

lemma year_of_days_correct:
  assumes "year_of_days d = (y, yd)"
  shows "days_before_year y + int yd = d" and "yd < (if isLeap y then 366 else 365)"
proof -
  define r where "r = d mod 146097"
  define b where "b = min 3 (r div 36524)"
  define r1 where "r1 = r - 36524 * b"
  define c where "c = r1 div 1461"
  define r2 where "r2 = r1 mod 1461"
  define e where "e = min 3 (r2 div 365)"
  note p = year_of_days_parts [of d, folded r_def, folded b_def, folded r1_def, folded c_def r2_def, folded e_def]
  have y: "y = 400 * (d div 146097) + 100 * b + 4 * c + e + 1" and yd: "yd = nat (r2 - 365 * e)"
    using assms unfolding year_of_days_def Let_def r_def b_def r1_def c_def r2_def e_def by auto
  have dby: "days_before_year y = 146097 * (d div 146097) + 36524 * b + 1461 * c + 365 * e"
    unfolding y using p(1-6) by (rule days_before_year_decomp)
  show "days_before_year y + int yd = d" using dby yd p(7,8) by linarith
  have leap: "isLeap y \<longleftrightarrow> e = 3 \<and> (c \<noteq> 24 \<or> b = 3)"
    unfolding y using p(1-6) by (rule isLeap_decomp)
  show "yd < (if isLeap y then 366 else 365)" using leap yd p(7,9,10) by (simp split: if_splits, linarith+)
qed

lemma month_of_yday_correct:
  assumes "month_of_yday ls m d = (m', d')" "d < sum_list ls"
  shows "m \<le> m' \<and> m' - m < length ls \<and> 1 \<le> d' \<and> d' \<le> ls ! (m' - m)
         \<and> sum_list (take (m' - m) ls) + d' = d + 1"
  using assms
proof (induction ls arbitrary: m d)
  case Nil
  then show ?case by simp
next
  case (Cons l ls)
  show ?case
  proof (cases "d < l")
    case True
    then show ?thesis using Cons.prems by auto
  next
    case False
    then have rec: "month_of_yday ls (m + 1) (d - l) = (m', d')" and lt: "d - l < sum_list ls"
      using Cons.prems by auto
    from Cons.IH [OF rec lt] have ih: "m + 1 \<le> m'" "m' - (m + 1) < length ls" "1 \<le> d'"
      "d' \<le> ls ! (m' - (m + 1))" "sum_list (take (m' - (m + 1)) ls) + d' = d - l + 1"
      by auto
    have s: "m' - m = Suc (m' - (m + 1))" using ih(1) by simp
    show ?thesis unfolding s using ih False by auto
  qed
qed

lemma sum_month_lengths: "sum_list (month_lengths y) = (if isLeap y then 366 else 365)"
  by (simp add: month_lengths_def)

lemma civil_date_ok:
  assumes "year_of_days n = (y, yd)" "month_of_yday (month_lengths y) 1 yd = (m, d)"
  shows "1 \<le> m \<and> m \<le> 12 \<and> 1 \<le> d \<and> d \<le> daysIn m y
       \<and> days_before_year y + int (sum_list (take (m - 1) (month_lengths y))) + int d - 1 = n"
proof -
  have yd: "yd < sum_list (month_lengths y)" and dby: "days_before_year y + int yd = n"
    using year_of_days_correct [OF assms(1)] by (simp_all add: sum_month_lengths)
  have len: "length (month_lengths y) = 12" by (simp add: month_lengths_def)
  from month_of_yday_correct [OF assms(2) yd] len
  show ?thesis using dby by (auto simp: daysIn_def)
qed

lemma char_of_48: "char_of (48::nat) = CHR ''0''"
  by (simp add: char_of_eq_iff)

lemma byte_digit: "k < 10 \<Longrightarrow> byte (char_of (48 + k)) = 48 + k"
  by (simp add: byte_def)

lemma digit_val_digit: "k < 10 \<Longrightarrow> digit_val (char_of (48 + k)) = k"
  by (simp add: digit_val_def byte_digit)

lemma nat_digits_1: "n < 10 \<Longrightarrow> nat_digits n = [char_of (48 + n)]"
  by (simp add: nat_digits.simps)

lemma nat_digits_step: "10 \<le> n \<Longrightarrow> nat_digits n = nat_digits (n div 10) @ [char_of (48 + n mod 10)]"
  by (subst nat_digits.simps) simp

lemma nat_digits_2: "10 \<le> n \<Longrightarrow> n < 100 \<Longrightarrow> nat_digits n = [char_of (48 + n div 10), char_of (48 + n mod 10)]"
  by (simp add: nat_digits_step nat_digits_1)

lemma nat_digits_3: "100 \<le> n \<Longrightarrow> n < 1000 \<Longrightarrow>
  nat_digits n = [char_of (48 + n div 100), char_of (48 + n div 10 mod 10), char_of (48 + n mod 10)]"
  by (simp add: nat_digits_step [of n] nat_digits_2 div_mult2_eq [symmetric] less_mult_imp_div_less)

lemma nat_digits_4: "1000 \<le> n \<Longrightarrow> n < 10000 \<Longrightarrow>
  nat_digits n = [char_of (48 + n div 1000), char_of (48 + n div 100 mod 10),
                  char_of (48 + n div 10 mod 10), char_of (48 + n mod 10)]"
  by (simp add: nat_digits_step [of n] nat_digits_3 div_mult2_eq [symmetric] less_mult_imp_div_less)

lemma appendInt_2:
  "n < 100 \<Longrightarrow> appendInt (int n) 2 = [char_of (48 + n div 10), char_of (48 + n mod 10)]"
  by (cases "n < 10") (simp_all add: appendInt_def nat_digits_1 nat_digits_2 char_of_48)

lemma appendInt_4:
  assumes "n < 10000"
  shows "appendInt (int n) 4 = [char_of (48 + n div 1000), char_of (48 + n div 100 mod 10),
                  char_of (48 + n div 10 mod 10), char_of (48 + n mod 10)]"
proof -
  consider "n < 10" | "10 \<le> n" "n < 100" | "100 \<le> n" "n < 1000" | "1000 \<le> n" 
    by linarith
  then show ?thesis
  proof cases
    case 1 then show ?thesis by (simp add: appendInt_def nat_digits_1 char_of_48 numeral_3_eq_3)
  next
    case 2 then show ?thesis by (simp add: appendInt_def nat_digits_2 char_of_48 numeral_2_eq_2)
  next
    case 3 then show ?thesis by (simp add: appendInt_def nat_digits_3 char_of_48)
  next
    case 4 then show ?thesis using assms by (simp add: appendInt_def nat_digits_4)
  qed
qed

lemma getnum_2:
  "a < 10 \<Longrightarrow> b < 10 \<Longrightarrow> getnum (char_of (48 + a) # char_of (48 + b) # rest) fixed = Some (a * 10 + b, rest)"
  by (simp add: getnum_def isDigit_def byte_digit digit_val_digit)

lemma get_year_4:
  "a < 10 \<Longrightarrow> b < 10 \<Longrightarrow> c < 10 \<Longrightarrow> d < 10 \<Longrightarrow>
   get_year (char_of (48 + a) # char_of (48 + b) # char_of (48 + c) # char_of (48 + d) # rest)
     = Some (((a * 10 + b) * 10 + c) * 10 + d, rest)"
  by (simp add: get_year_def isDigit_def byte_digit digit_val_digit)

lemma digits4: "((n div 1000 * 10 + n div 100 mod 10) * 10 + n div 10 mod 10) * 10 + n mod 10 = (n::nat)"
proof -
  have a: "n div 100 = n div 10 div 10" "n div 1000 = n div 10 div 10 div 10"
    by (simp_all add: div_mult2_eq [symmetric])
  have s: "\<And>k::nat. k div 10 * 10 + k mod 10 = k" by simp
  show ?thesis unfolding a s ..
qed

lemma digits2: "(n div 10) * 10 + n mod 10 = (n::nat)"
  by simp


lemma civil_of_fields:
  fixes t :: Time
  defines "a \<equiv> unix t + zone t + 62135596800"
  shows "1 \<le> month (civil_of t) \<and> month (civil_of t) \<le> 12 \<and> 1 \<le> day (civil_of t)
       \<and> day (civil_of t) \<le> daysIn (month (civil_of t)) (year (civil_of t))
       \<and> hour (civil_of t) < 24 \<and> minute (civil_of t) < 60 \<and> second (civil_of t) < 60
       \<and> days_before_year (year (civil_of t))
           + int (sum_list (take (month (civil_of t) - 1) (month_lengths (year (civil_of t)))))
           + int (day (civil_of t)) - 1 = a div 86400
       \<and> int (hour (civil_of t)) * 3600 + int (minute (civil_of t)) * 60 + int (second (civil_of t))
           = a mod 86400"
proof -
  obtain y yd where y: "year_of_days (a div 86400) = (y, yd)" by (cases "year_of_days (a div 86400)")
  obtain m d where m: "month_of_yday (month_lengths y) 1 yd = (m, d)"
    by (cases "month_of_yday (month_lengths y) 1 yd")
  define s where "s = nat (a mod 86400)"
  have s: "s < 86400" "int s = a mod 86400" by (simp_all add: s_def)
  have c: "civil_of t = \<lparr>year = y, month = m, day = d,
          hour = s div 3600, minute = (s mod 3600) div 60, second = s mod 60\<rparr>"
    unfolding civil_of_def Let_def a_def [symmetric] s_def [symmetric] y using m by simp
  have clock: "s div 3600 < 24" "(s mod 3600) div 60 < 60" "s mod 60 < 60"
      "(s div 3600) * 3600 + (s mod 3600) div 60 * 60 + s mod 60 = s"
    using s(1) by (simp_all add: less_mult_imp_div_less mod_mod_cancel [of 60 3600 s, symmetric])
  have "int (s div 3600) * 3600 + int ((s mod 3600) div 60) * 60 + int (s mod 60) = int s"
    using clock(4) by linarith
  then show ?thesis unfolding c using civil_date_ok [OF y m] clock s by simp
qed



lemma Format_layout_digits:
  assumes "0 \<le> year (civil_of t)" "year (civil_of t) \<le> 9999"
  shows "\<exists>y mo d h mi s. y < 10000 \<and> mo < 100 \<and> d < 100 \<and> h < 24 \<and> mi < 60 \<and> s < 60
     \<and> civil_of t = \<lparr>year = int y, month = mo, day = d, hour = h, minute = mi, second = s\<rparr>
     \<and> 1 \<le> mo \<and> mo \<le> 12 \<and> 1 \<le> d \<and> d \<le> daysIn mo (int y)
     \<and> Format_layout t =
         [char_of (48 + y div 1000), char_of (48 + y div 100 mod 10),
          char_of (48 + y div 10 mod 10), char_of (48 + y mod 10), CHR ''-'',
          char_of (48 + mo div 10), char_of (48 + mo mod 10), CHR ''-'',
          char_of (48 + d div 10), char_of (48 + d mod 10), CHR ''T'',
          char_of (48 + h div 10), char_of (48 + h mod 10), CHR '':'',
          char_of (48 + mi div 10), char_of (48 + mi mod 10), CHR '':'',
          char_of (48 + s div 10), char_of (48 + s mod 10)] @ ''+00:00''"
proof -
  define c where "c = civil_of t"
  note f = civil_of_fields [of t, folded c_def]
  define y where "y = nat (year c)"
  have y: "year c = int y" "y < 10000" using assms by (simp_all add: y_def c_def)
  have dl: "daysIn (month c) (year c) \<le> 31"
    using f by (auto simp: daysIn_def month_lengths_def nth_Cons' split: if_splits)
  have small: "month c < 100" "day c < 100" "hour c < 100" "minute c < 100" "second c < 100"
    using f dl by linarith+
  have ceq: "c = \<lparr>year = int y, month = month c, day = day c, hour = hour c,
                  minute = minute c, second = second c\<rparr>"
    using y(1) by simp
  have fmt: "Format_layout t =
         [char_of (48 + y div 1000), char_of (48 + y div 100 mod 10),
          char_of (48 + y div 10 mod 10), char_of (48 + y mod 10), CHR ''-'',
          char_of (48 + month c div 10), char_of (48 + month c mod 10), CHR ''-'',
          char_of (48 + day c div 10), char_of (48 + day c mod 10), CHR ''T'',
          char_of (48 + hour c div 10), char_of (48 + hour c mod 10), CHR '':'',
          char_of (48 + minute c div 10), char_of (48 + minute c mod 10), CHR '':'',
          char_of (48 + second c div 10), char_of (48 + second c mod 10)] @ ''+00:00''"
    unfolding Format_layout_def Let_def c_def [symmetric] y(1)
    by (simp add: appendInt_4 [OF y(2)] appendInt_2 [OF small(1)] appendInt_2 [OF small(2)]
        appendInt_2 [OF small(3)] appendInt_2 [OF small(4)] appendInt_2 [OF small(5)])
  show ?thesis
    apply (rule exI [of _ y], rule exI [of _ "month c"], rule exI [of _ "day c"],
           rule exI [of _ "hour c"], rule exI [of _ "minute c"], rule exI [of _ "second c"])
    using y(2) small f fmt ceq [folded c_def] c_def y(1) by simp
qed

lemma get_year_digits:
  assumes "y < 10000"
  shows "get_year (char_of (48 + y div 1000) # char_of (48 + y div 100 mod 10) #
          char_of (48 + y div 10 mod 10) # char_of (48 + y mod 10) # rest) = Some (y, rest)"
proof -
  have "y div 1000 < 10" "y div 100 mod 10 < 10" "y div 10 mod 10 < 10" "y mod 10 < 10"
    using assms by simp_all
  from get_year_4 [OF this, of rest] show ?thesis unfolding digits4 .
qed

lemma getnum_digits:
  assumes "n < 100"
  shows "getnum (char_of (48 + n div 10) # char_of (48 + n mod 10) # rest) fixed = Some (n, rest)"
proof -
  have "n div 10 < 10" "n mod 10 < 10" using assms by simp_all
  from getnum_2 [OF this, of rest fixed] show ?thesis unfolding digits2 .
qed

lemma Parse_layout_digits:
  assumes "y < 10000" "1 \<le> mo" "mo \<le> 12" "1 \<le> d" "d \<le> daysIn mo (int y)" "d < 100"
    "h < 24" "mi < 60" "s < 60"
  shows "Parse_layout ([char_of (48 + y div 1000), char_of (48 + y div 100 mod 10),
          char_of (48 + y div 10 mod 10), char_of (48 + y mod 10), CHR ''-'',
          char_of (48 + mo div 10), char_of (48 + mo mod 10), CHR ''-'',
          char_of (48 + d div 10), char_of (48 + d mod 10), CHR ''T'',
          char_of (48 + h div 10), char_of (48 + h mod 10), CHR '':'',
          char_of (48 + mi div 10), char_of (48 + mi mod 10), CHR '':'',
          char_of (48 + s div 10), char_of (48 + s mod 10)] @ ''+00:00'')
     = Some (time_Date \<lparr>year = int y, month = mo, day = d, hour = h, minute = mi, second = s\<rparr> 0)"
proof -
  have lt: "mo < 100" "d < 100" "h < 100" "mi < 100" "s < 100"
    using assms by simp_all
  have frac: "get_fraction ''+00:00'' = (0, ''+00:00'')"
    by (simp add: get_fraction_def commaOrPeriod_def)
  show ?thesis
    unfolding Parse_layout_def
    using assms(2-5,7-9)
    by (simp add: get_year_digits [OF assms(1)] getnum_digits [OF lt(1)] getnum_digits [OF lt(2)]
        getnum_digits [OF lt(3)] getnum_digits [OF lt(4)] getnum_digits [OF lt(5)]
        skip_def guard_def frac)
qed

lemma time_Date_civil_of:
  "time_Date (civil_of t) 0 = \<lparr>unix = unix t + zone t, nanos = 0, zone = 0\<rparr>"
proof -
  define a where "a = unix t + zone t + 62135596800"
  define c where "c = civil_of t"
  define D where "D = days_before_year (year c)
           + int (sum_list (take (month c - 1) (month_lengths (year c)))) + int (day c) - 1"
  define C where "C = int (hour c) * 3600 + int (minute c) * 60 + int (second c)"
  have DC: "D = a div 86400" "C = a mod 86400"
    using civil_of_fields [of t] unfolding D_def C_def a_def c_def by simp_all
  have u: "unix (time_Date c 0) = D * 86400 + C - 62135596800"
    unfolding time_Date_def D_def C_def by simp
  have "a div 86400 * 86400 + a mod 86400 = a" by simp
  then have "unix (time_Date c 0) = unix t + zone t"
    unfolding u DC a_def by linarith
  then show ?thesis unfolding c_def by (simp add: time_Date_def)
qed

lemma Parse_Format_layout:
  assumes "0 \<le> year (civil_of t)" "year (civil_of t) \<le> 9999"
  shows "Parse_layout (Format_layout t) = Some \<lparr>unix = unix t + zone t, nanos = 0, zone = 0\<rparr>"
proof -
  from Format_layout_digits [OF assms] obtain y mo d h mi s where
    r: "y < 10000" "d < 100" "h < 24" "mi < 60" "s < 60"
       "civil_of t = \<lparr>year = int y, month = mo, day = d, hour = h, minute = mi, second = s\<rparr>"
       "1 \<le> mo" "mo \<le> 12" "1 \<le> d" "d \<le> daysIn mo (int y)"
    and fmt: "Format_layout t =
         [char_of (48 + y div 1000), char_of (48 + y div 100 mod 10),
          char_of (48 + y div 10 mod 10), char_of (48 + y mod 10), CHR ''-'',
          char_of (48 + mo div 10), char_of (48 + mo mod 10), CHR ''-'',
          char_of (48 + d div 10), char_of (48 + d mod 10), CHR ''T'',
          char_of (48 + h div 10), char_of (48 + h mod 10), CHR '':'',
          char_of (48 + mi div 10), char_of (48 + mi mod 10), CHR '':'',
          char_of (48 + s div 10), char_of (48 + s mod 10)] @ ''+00:00''"
    by blast
  have "Parse_layout (Format_layout t) = Some (time_Date (civil_of t) 0)"
    unfolding fmt r(6) using r by (intro Parse_layout_digits) auto
  then show ?thesis by (simp add: time_Date_civil_of)
qed


lemma json_escape_plain:
  assumes "\<forall>c \<in> set s. byte c < 128 \<and> json_escape_ascii c = [c]"
  shows "json_escape s = s"
  using assms by (induction s) (simp_all add: json_escape.simps(2))

lemma digit_plain:
  fixes k :: nat
  assumes "k < 10"
  shows "byte (char_of (48 + k)) < 128" "json_escape_ascii (char_of (48 + k)) = [char_of (48 + k)]"
    "char_of (48 + k) \<noteq> CHR 0x22"
proof -
  have b: "byte (char_of (48 + k)) = 48 + k" using assms by (rule byte_digit)
  show "byte (char_of (48 + k)) < 128" using assms b by simp
  show "json_escape_ascii (char_of (48 + k)) = [char_of (48 + k)]"
    unfolding json_escape_ascii_def Let_def b using assms by simp
  have "byte (CHR 0x22) = 34" by (simp add: byte_def)
  then show "char_of (48 + k) \<noteq> CHR 0x22" using b by auto
qed

lemma lit_plain:
  "byte CHR ''-'' < 128" "json_escape_ascii CHR ''-'' = ''-''"
  "byte CHR ''T'' < 128" "json_escape_ascii CHR ''T'' = ''T''"
  "byte CHR '':'' < 128" "json_escape_ascii CHR '':'' = '':''"
  "byte CHR ''+'' < 128" "json_escape_ascii CHR ''+'' = ''+''"
  "byte CHR ''0'' < 128" "json_escape_ascii CHR ''0'' = ''0''"
  by (simp_all add: byte_def json_escape_ascii_def)

lemma ExpireTime_roundtrip_general:
  assumes "0 \<le> year (civil_of t)" "year (civil_of t) \<le> 9999"
  shows "ExpireTime_UnmarshalJSON (ExpireTime_MarshalJSON t)
           = Some \<lparr>unix = unix t + zone t, nanos = 0, zone = 0\<rparr>"
proof -
  from Format_layout_digits [OF assms] obtain y mo d h mi s :: nat where
    r: "y < 10000" "mo < 100" "d < 100" "h < 24" "mi < 60" "s < 60"
    and fmt: "Format_layout t =
         [char_of (48 + y div 1000), char_of (48 + y div 100 mod 10),
          char_of (48 + y div 10 mod 10), char_of (48 + y mod 10), CHR ''-'',
          char_of (48 + mo div 10), char_of (48 + mo mod 10), CHR ''-'',
          char_of (48 + d div 10), char_of (48 + d mod 10), CHR ''T'',
          char_of (48 + h div 10), char_of (48 + h mod 10), CHR '':'',
          char_of (48 + mi div 10), char_of (48 + mi mod 10), CHR '':'',
          char_of (48 + s div 10), char_of (48 + s mod 10)] @ ''+00:00''"
    by blast
  have k: "y div 1000 < 10" "y div 100 mod 10 < 10" "y div 10 mod 10 < 10" "y mod 10 < 10"
    "mo div 10 < 10" "mo mod 10 < 10" "d div 10 < 10" "d mod 10 < 10"
    "h div 10 < 10" "h mod 10 < 10" "mi div 10 < 10" "mi mod 10 < 10"
    "s div 10 < 10" "s mod 10 < 10"
    using r by simp_all
  have esc: "json_escape (Format_layout t) = Format_layout t"
    by (rule json_escape_plain) (simp add: fmt k digit_plain lit_plain)
  have trim: "strings_Trim (json_string (Format_layout t)) (CHR 0x22) = Format_layout t"
    unfolding json_string_def esc unfolding fmt strings_Trim_def
    by (simp add: digit_plain(3) [OF k(1)])
  show ?thesis
    unfolding ExpireTime_UnmarshalJSON_def ExpireTime_MarshalJSON_def trim
    by (rule Parse_Format_layout [OF assms])
qed

subsection \<open>Concrete timestamps\<close>

lemma year_of_days_738944: "year_of_days 738944 = (2024, 59)"
  by (simp add: year_of_days_def)

lemma year_of_days_738945: "year_of_days 738945 = (2024, 60)"
  by (simp add: year_of_days_def)

lemma year_of_days_3652059: "year_of_days 3652059 = (10000, 0)"
  by (simp add: year_of_days_def)

lemma month_of_yday_2024_59: "month_of_yday (month_lengths 2024) (Suc 0) 59 = (2, 29)"
  by (simp add: month_lengths_def isLeap_def)

lemma month_of_yday_2024_60: "month_of_yday (month_lengths 2024) (Suc 0) 60 = (3, 1)"
  by (simp add: month_lengths_def isLeap_def)

lemma month_of_yday_10000_0: "month_of_yday (month_lengths 10000) (Suc 0) 0 = (1, 1)"
  by (simp add: month_lengths_def)

lemma civil_of_leap_day:
  "civil_of \<lparr>unix = 1709251199, nanos = 5, zone = 0\<rparr>
   = \<lparr>year = 2024, month = 2, day = 29, hour = 23, minute = 59, second = 59\<rparr>"
  by (simp add: civil_of_def year_of_days_738944 month_of_yday_2024_59)

lemma civil_of_leap_day_east:
  "civil_of \<lparr>unix = 1709251199, nanos = 0, zone = 3600\<rparr>
   = \<lparr>year = 2024, month = 3, day = 1, hour = 0, minute = 59, second = 59\<rparr>"
  by (simp add: civil_of_def year_of_days_738945 month_of_yday_2024_60)

lemma Format_leap_day_east:
  "Format_layout \<lparr>unix = 1709251199, nanos = 0, zone = 3600\<rparr> = ''2024-03-01T00:59:59+00:00''"
  by (simp add: Format_layout_def civil_of_leap_day_east appendInt_def nat_digits.simps char_of_eq_iff)

lemma civil_of_year_10000:
  "civil_of \<lparr>unix = 253402300800, nanos = 0, zone = 0\<rparr>
   = \<lparr>year = 10000, month = 1, day = 1, hour = 0, minute = 0, second = 0\<rparr>"
  by (simp add: civil_of_def year_of_days_3652059 month_of_yday_10000_0)

lemma Format_year_10000:
  "Format_layout \<lparr>unix = 253402300800, nanos = 0, zone = 0\<rparr> = ''10000-01-01T00:00:00+00:00''"
  by (simp add: Format_layout_def civil_of_year_10000 appendInt_def nat_digits.simps char_of_eq_iff)

text \<open>
  A timestamp in the year 10000 is written with five digits for the year, which
  the parser, which takes four, rejects.
\<close>

lemma ExpireTime_year_10000:
  "ExpireTime_UnmarshalJSON (ExpireTime_MarshalJSON \<lparr>unix = 253402300800, nanos = 0, zone = 0\<rparr>) = None"
  unfolding ExpireTime_MarshalJSON_def Format_year_10000
  by (simp add: ExpireTime_UnmarshalJSON_def json_string_def json_escape.simps(2) json_escape_ascii_def
      byte_def strings_Trim_def Parse_layout_def get_year_def isDigit_def digit_val_def skip_def)

section \<open>Properties of the JSON encoder and decoder\<close>

text \<open>
  The string encoder writes a string in pieces: the escape of an ASCII byte, the
  escape of \<^verbatim>\<open>U+FFFD\<close> for a byte that starts no well-formed encoding, the escape of
  one of the two line separators, or a well-formed multi-byte encoding as it is. The
  lexer passes over each piece, each piece is a well-formed part of a string
  literal, and \<^verbatim>\<open>unquote\<close> gives back the bytes that the piece stands for.
\<close>

subsection \<open>String literals\<close>

lemma char_of_byte: "char_of (byte c) = c"
  by (simp add: byte_def)

lemma byte_inj: "byte c = byte d \<Longrightarrow> c = d"
  by (metis char_of_byte)

lemma utf8_need_range: "utf8_need b = 0 \<or> utf8_need b = 2 \<or> utf8_need b = 3 \<or> utf8_need b = 4"
  by (simp add: utf8_need_def)

lemma utf8_need_first: "utf8_need b \<noteq> 0 \<Longrightarrow> 128 \<le> b"
  by (simp add: utf8_need_def split: if_splits)

lemma utf8_second_ok_ge: "utf8_second_ok a b \<Longrightarrow> 128 \<le> b"
  by (simp add: utf8_second_ok_def split: if_splits)

lemma utf8_width_props:
  assumes "utf8_width p = n" "n \<noteq> 0"
  shows "n \<le> length p" "2 \<le> n" "n \<le> 4" "\<forall>i<n. 128 \<le> p ! i" "n = utf8_need (p ! 0)"
proof -
  obtain p0 r where p: "p = p0 # r" using assms by (cases p) (auto simp: utf8_width_def)
  define sz where "sz = utf8_need p0"
  have w: "utf8_width p =
          (if sz = 0 \<or> length p < sz then 0
             else if \<not> utf8_second_ok p0 (p ! 1) then 0
             else if sz \<le> 2 then 2
             else if \<not> utf8_cont (p ! 2) then 0
             else if sz \<le> 3 then 3
             else if \<not> utf8_cont (p ! 3) then 0
             else 4)"
    by (simp add: utf8_width_def p sz_def Let_def)
  have szr: "sz = 0 \<or> sz = 2 \<or> sz = 3 \<or> sz = 4" unfolding sz_def by (rule utf8_need_range)
  have nsz: "n = sz" using assms szr unfolding w by (auto split: if_splits)
  show "n = utf8_need (p ! 0)" using nsz by (simp add: sz_def p)
  show "n \<le> length p" using assms unfolding w nsz by (auto split: if_splits)
  show "2 \<le> n" "n \<le> 4" using assms szr nsz by auto
  have f0: "128 \<le> p ! 0" using assms utf8_need_first [of p0] nsz by (simp add: p sz_def)
  have f1: "128 \<le> p ! 1" using assms utf8_second_ok_ge [of p0 "p ! 1"] unfolding w
    by (auto split: if_splits)
  have f2: "3 \<le> n \<Longrightarrow> 128 \<le> p ! 2" using assms nsz unfolding w
    by (auto simp: utf8_cont_def split: if_splits)
  have f3: "4 \<le> n \<Longrightarrow> 128 \<le> p ! 3" using assms nsz unfolding w
    by (auto simp: utf8_cont_def split: if_splits)
  show "\<forall>i<n. 128 \<le> p ! i"
  proof (intro allI impI)
    fix i assume "i < n"
    then have "i = 0 \<or> i = 1 \<or> (i = 2 \<and> 3 \<le> n) \<or> (i = 3 \<and> 4 \<le> n)"
      using \<open>n \<le> 4\<close> by arith
    then show "128 \<le> p ! i" using f0 f1 f2 f3 by auto
  qed
qed

lemma utf8_width_cong:
  assumes "utf8_width p = n" "n \<noteq> 0" "n \<le> length q" "\<forall>i<n. q ! i = p ! i"
  shows "utf8_width q = n"
proof -
  note pr = utf8_width_props [OF assms(1,2)]
  obtain p0 r where p: "p = p0 # r" using pr by (cases p) auto
  obtain q0 s where q: "q = q0 # s" using assms(3) pr(2) by (cases q) auto
  have e0: "q0 = p0" using assms(4) pr(2) by (auto simp: p q dest: spec [of _ 0])
  have e1: "q ! 1 = p ! 1" using assms(4) pr(2) by auto
  have e2: "3 \<le> n \<Longrightarrow> q ! 2 = p ! 2" using assms(4) by auto
  have e3: "4 \<le> n \<Longrightarrow> q ! 3 = p ! 3" using assms(4) by auto
  define sz where "sz = utf8_need p0"
  have szr: "sz = 0 \<or> sz = 2 \<or> sz = 3 \<or> sz = 4" unfolding sz_def by (rule utf8_need_range)
  have wp: "utf8_width p =
          (if sz = 0 \<or> length p < sz then 0
             else if \<not> utf8_second_ok p0 (p ! 1) then 0
             else if sz \<le> 2 then 2
             else if \<not> utf8_cont (p ! 2) then 0
             else if sz \<le> 3 then 3
             else if \<not> utf8_cont (p ! 3) then 0
             else 4)"
    by (simp add: utf8_width_def p sz_def Let_def)
  have wq: "utf8_width q =
          (if sz = 0 \<or> length q < sz then 0
             else if \<not> utf8_second_ok p0 (q ! 1) then 0
             else if sz \<le> 2 then 2
             else if \<not> utf8_cont (q ! 2) then 0
             else if sz \<le> 3 then 3
             else if \<not> utf8_cont (q ! 3) then 0
             else 4)"
    by (simp add: utf8_width_def q e0 sz_def Let_def)
  have nsz: "n = sz" using assms(1,2) szr unfolding wp by (auto split: if_splits)
  show ?thesis using assms(1,2,3) szr e1 e2 e3 unfolding wp wq nsz
    by (auto split: if_splits)
qed

lemma utf8_width_take4: "utf8_width (take 4 q) = utf8_width q"
proof (cases "utf8_width q = 0")
  case False
  have "utf8_width (take 4 q) = utf8_width q"
    using utf8_width_props [OF refl False]
    by (intro utf8_width_cong [OF refl False]) auto
  then show ?thesis .
next
  case True
  show ?thesis
  proof (cases "utf8_width (take 4 q) = 0")
    case True
    then show ?thesis using \<open>utf8_width q = 0\<close> by simp
  next
    case False
    have "utf8_width q = utf8_width (take 4 q)"
      using utf8_width_props [OF refl False]
      by (intro utf8_width_cong [OF refl False]) auto
    then show ?thesis by simp
  qed
qed


lemma byte_quote: "byte (CHR 0x22) = 34" "byte (CHR 0x5C) = 92"
  by (simp_all add: byte_def)

lemma high_byte_plain:
  assumes "128 \<le> byte x"
  shows "x \<noteq> CHR 0x22" "x \<noteq> CHR 0x5C" "32 \<le> byte x"
  using assms byte_quote by auto

lemma lex_plain_list:
  assumes "\<forall>x \<in> set xs. x \<noteq> CHR 0x22 \<and> x \<noteq> CHR 0x5C"
  shows "lex (LStr acc False) (xs @ rest) = lex (LStr (rev xs @ acc) False) rest"
  using assms by (induction xs arbitrary: acc) auto

lemma valid_body_plain_list:
  assumes "\<forall>x \<in> set xs. x \<noteq> CHR 0x5C \<and> 32 \<le> byte x"
  shows "valid_body (xs @ rest) = valid_body rest"
  using assms by (induction xs) auto

lemma hexdigit_props:
  assumes "k < 16"
  shows "hexdigits ! k \<noteq> CHR 0x22" "hexdigits ! k \<noteq> CHR 0x5C" "32 \<le> byte (hexdigits ! k)"
    "hexval (hexdigits ! k) = Some k"
proof -
  have "k = 0 \<or> k = 1 \<or> k = 2 \<or> k = 3 \<or> k = 4 \<or> k = 5 \<or> k = 6 \<or> k = 7 \<or> k = 8 \<or> k = 9
      \<or> k = 10 \<or> k = 11 \<or> k = 12 \<or> k = 13 \<or> k = 14 \<or> k = 15"
    using assms by arith
  then show "hexdigits ! k \<noteq> CHR 0x22" "hexdigits ! k \<noteq> CHR 0x5C" "32 \<le> byte (hexdigits ! k)"
    "hexval (hexdigits ! k) = Some k"
    by (auto simp: hexdigits_def hexval_def byte_def)
qed

text \<open>The escape of a control character or of one of the three HTML characters.\<close>

lemma u00_chunk:
  assumes "b < 128"
  shows "lex (LStr acc False) (json_u00 b @ rest) = lex (LStr (rev (json_u00 b) @ acc) False) rest"
    and "valid_body (json_u00 b @ rest) = valid_body rest"
    and "json_unquote (json_u00 b @ rest) = char_of b # json_unquote rest"
proof -
  have k: "b div 16 < 16" "b mod 16 < 16" using assms by simp_all
  note h1 = hexdigit_props [OF k(1)] and h0 = hexdigit_props [OF k(2)]
  have z: "hexval CHR ''0'' = Some 0" by (simp add: hexval_def byte_def)
  have g: "getu4 (json_u00 b @ rest) = Some b"
    by (simp add: json_u00_def z h1(4) h0(4))
  show "lex (LStr acc False) (json_u00 b @ rest) = lex (LStr (rev (json_u00 b) @ acc) False) rest"
    using h1(1,2) h0(1,2) by (simp add: json_u00_def)
  show "valid_body (json_u00 b @ rest) = valid_body rest"
    using g by (simp add: json_u00_def)
  show "json_unquote (json_u00 b @ rest) = char_of b # json_unquote rest"
    using g assms by (simp add: json_u00_def json_unquote.simps(2) utf8_EncodeRune_def)
qed

lemma ascii_chunk:
  assumes "byte c < 128"
  shows "lex (LStr acc False) (json_escape_ascii c @ rest)
           = lex (LStr (rev (json_escape_ascii c) @ acc) False) rest"
    and "valid_body (json_escape_ascii c @ rest) = valid_body rest"
    and "json_unquote (json_escape_ascii c @ rest) = c # json_unquote rest"
proof -
  define b where "b = byte c"
  have cb: "c = char_of b" by (simp add: b_def char_of_byte)
  consider (quote) "b = 34" | (backslash) "b = 92"
    | (short) "b = 8 \<or> b = 12 \<or> b = 10 \<or> b = 13 \<or> b = 9"
    | (hex) "b \<noteq> 34" "b \<noteq> 92" "b \<noteq> 8" "b \<noteq> 12" "b \<noteq> 10" "b \<noteq> 13" "b \<noteq> 9"
            "b < 32 \<or> b = 60 \<or> b = 62 \<or> b = 38"
    | (plain) "b \<noteq> 34" "b \<noteq> 92" "32 \<le> b" "b \<noteq> 60" "b \<noteq> 62" "b \<noteq> 38"
    by fastforce
  then have "lex (LStr acc False) (json_escape_ascii c @ rest)
           = lex (LStr (rev (json_escape_ascii c) @ acc) False) rest
     \<and> valid_body (json_escape_ascii c @ rest) = valid_body rest
     \<and> json_unquote (json_escape_ascii c @ rest) = c # json_unquote rest"
  proof cases
    case quote
    then have c: "c = CHR 0x22" using cb by (simp add: char_of_eq_iff)
    show ?thesis by (simp add: c json_escape_ascii_def byte_def json_unquote.simps(2) unescape_def)
  next
    case backslash
    then have c: "c = CHR 0x5C" using cb by (simp add: char_of_eq_iff)
    show ?thesis by (simp add: c json_escape_ascii_def byte_def json_unquote.simps(2) unescape_def)
  next
    case short
    then have "c = CHR 0x08 \<or> c = CHR 0x0C \<or> c = CHR 0x0A \<or> c = CHR 0x0D \<or> c = CHR 0x09"
      using cb by (auto simp: char_of_eq_iff)
    then show ?thesis
      by (auto simp: json_escape_ascii_def byte_def json_unquote.simps(2) unescape_def)
  next
    case hex
    have e: "json_escape_ascii c = json_u00 b"
      using hex by (simp add: json_escape_ascii_def b_def [symmetric])
    have bl: "b < 128" using assms by (simp add: b_def)
    show ?thesis unfolding e using u00_chunk [OF bl] cb by simp
  next
    case plain
    have e: "json_escape_ascii c = [c]"
      using plain by (auto simp: json_escape_ascii_def b_def [symmetric])
    have n: "c \<noteq> CHR 0x22" "c \<noteq> CHR 0x5C" using plain byte_quote by (auto simp: b_def)
    show ?thesis unfolding e using n plain(3) assms
      by (simp add: json_unquote.simps(2) b_def)
  qed
  then show "lex (LStr acc False) (json_escape_ascii c @ rest)
           = lex (LStr (rev (json_escape_ascii c) @ acc) False) rest"
    and "valid_body (json_escape_ascii c @ rest) = valid_body rest"
    and "json_unquote (json_escape_ascii c @ rest) = c # json_unquote rest"
    by blast+
qed


lemma mb_chunk:
  assumes "\<not> byte c < 128" "utf8_width (map byte (take 4 (c # cs))) = n" "n \<noteq> 0"
  shows "take n (c # cs) = c # take (n - 1) cs" "length (take (n - 1) cs) = n - 1"
    "\<forall>x \<in> set (take n (c # cs)). 128 \<le> byte x"
    "utf8_width (map byte (take 4 (c # take (n - 1) cs @ ys))) = n"
proof -
  let ?p = "map byte (take 4 (c # cs))"
  note pr = utf8_width_props [OF assms(2,3)]
  have len: "n \<le> Suc (length cs)" using pr(1) by simp
  have nth: "?p ! i = byte ((c # cs) ! i)" if "i < n" for i
  proof -
    have il: "i < length (take 4 (c # cs))" using that pr(1) by (simp only: length_map)
    have "?p ! i = byte (take 4 (c # cs) ! i)" using il by (rule nth_map)
    also have "take 4 (c # cs) ! i = (c # cs) ! i" using that pr(3) by (intro nth_take) simp
    finally show ?thesis .
  qed
  show t: "take n (c # cs) = c # take (n - 1) cs"
    using pr(2) by (cases n) auto
  show l: "length (take (n - 1) cs) = n - 1" using len by simp
  show "\<forall>x \<in> set (take n (c # cs)). 128 \<le> byte x"
  proof
    fix x assume "x \<in> set (take n (c # cs))"
    then obtain i where i: "i < n" "i < length (c # cs)" "x = (c # cs) ! i"
      by (auto simp: in_set_conv_nth)
    then show "128 \<le> byte x" using pr(4) nth by auto
  qed
  let ?q = "map byte (c # take (n - 1) cs @ ys)"
  have ql: "n \<le> length ?q" using l pr(2) by simp
  have qn: "?q ! i = ?p ! i" if "i < n" for i
  proof -
    have eq: "(c # take (n - 1) cs @ ys) ! i = (c # cs) ! i"
      using that l by (cases i) (auto simp: nth_append)
    have il: "i < length (c # take (n - 1) cs @ ys)" using that l by simp
    have "?q ! i = byte ((c # take (n - 1) cs @ ys) ! i)" using il by (rule nth_map)
    also have "\<dots> = byte ((c # cs) ! i)" by (simp only: eq)
    also have "\<dots> = ?p ! i" by (rule nth [OF that, symmetric])
    finally show ?thesis .
  qed
  have "utf8_width ?q = n"
    using ql qn by (intro utf8_width_cong [OF assms(2,3)]) auto
  then show "utf8_width (map byte (take 4 (c # take (n - 1) cs @ ys))) = n"
    using utf8_width_take4 [of ?q] by (simp add: take_map)
qed

lemma mb_unquote:
  assumes "\<not> byte c < 128" "utf8_width (map byte (take 4 (c # cs))) = n" "n \<noteq> 0"
  shows "json_unquote (take n (c # cs) @ rest) = take n (c # cs) @ json_unquote rest"
proof -
  note m = mb_chunk [OF assms]
  have nb: "c \<noteq> CHR 0x5C" using assms(1) byte_quote(2) by auto
  have "json_unquote (c # (take (n - 1) cs @ rest))
          = take n (c # (take (n - 1) cs @ rest)) @ json_unquote (drop (n - 1) (take (n - 1) cs @ rest))"
    using nb assms(1,3) m(4) [of rest]
    by (subst json_unquote.simps(2)) (simp add: Let_def)
  moreover have "take n (c # (take (n - 1) cs @ rest)) = c # take (n - 1) cs"
    using m(2) utf8_width_props(2) [OF assms(2,3)] by (cases n) auto
  moreover have "drop (n - 1) (take (n - 1) cs @ rest) = rest" using m(2) by simp
  ultimately show ?thesis using m(1) by simp
qed

lemma map_byte_inj: "map byte xs = map byte ys \<Longrightarrow> xs = ys"
proof -
  assume "map byte xs = map byte ys"
  then have "map char_of (map byte xs) = map char_of (map byte ys)" by simp
  then show ?thesis by (simp add: char_of_byte comp_def)
qed

lemma sep_bytes:
  "map byte [CHR 0xE2, CHR 0x80, CHR 0xA8] = [226, 128, 168]"
  "map byte [CHR 0xE2, CHR 0x80, CHR 0xA9] = [226, 128, 169]"
  by (simp_all add: byte_def)

lemma sep_chunk:
  fixes d :: char
  assumes "d = CHR ''8'' \<or> d = CHR ''9''"
  shows "lex (LStr acc False) ([CHR 0x5C, CHR ''u'', CHR ''2'', CHR ''0'', CHR ''2'', d] @ rest)
           = lex (LStr (rev [CHR 0x5C, CHR ''u'', CHR ''2'', CHR ''0'', CHR ''2'', d] @ acc) False) rest"
    and "valid_body ([CHR 0x5C, CHR ''u'', CHR ''2'', CHR ''0'', CHR ''2'', d] @ rest) = valid_body rest"
  using assms by (auto simp: hexval_def byte_def)

lemma sep_unquote:
  "json_unquote ([CHR 0x5C, CHR ''u'', CHR ''2'', CHR ''0'', CHR ''2'', CHR ''8''] @ rest)
     = [CHR 0xE2, CHR 0x80, CHR 0xA8] @ json_unquote rest"
  "json_unquote ([CHR 0x5C, CHR ''u'', CHR ''2'', CHR ''0'', CHR ''2'', CHR ''9''] @ rest)
     = [CHR 0xE2, CHR 0x80, CHR 0xA9] @ json_unquote rest"
  by (simp_all add: json_unquote.simps(2) hexval_def byte_def utf8_EncodeRune_def char_of_eq_iff)

lemma fffd_chunk:
  "lex (LStr acc False) ([CHR 0x5C, CHR ''u'', CHR ''f'', CHR ''f'', CHR ''f'', CHR ''d''] @ rest)
     = lex (LStr (rev [CHR 0x5C, CHR ''u'', CHR ''f'', CHR ''f'', CHR ''f'', CHR ''d''] @ acc) False) rest"
  "valid_body ([CHR 0x5C, CHR ''u'', CHR ''f'', CHR ''f'', CHR ''f'', CHR ''d''] @ rest) = valid_body rest"
  by (simp_all add: hexval_def byte_def)


lemma json_escape_step:
  "\<exists>chunk src tl.
      c # cs = src @ tl \<and> src \<noteq> []
      \<and> json_escape (c # cs) = chunk @ json_escape tl
      \<and> (\<forall>acc rest. lex (LStr acc False) (chunk @ rest) = lex (LStr (rev chunk @ acc) False) rest)
      \<and> (\<forall>rest. valid_body (chunk @ rest) = valid_body rest)
      \<and> (utf8_valid (c # cs) \<longrightarrow>
           utf8_valid tl \<and> (\<forall>rest. json_unquote (chunk @ rest) = src @ json_unquote rest))"
proof -
  define n where "n = utf8_width (map byte (take 4 (c # cs)))"
  have esc: "json_escape (c # cs) =
     (if byte c < 128 then json_escape_ascii c @ json_escape cs
      else if n = 0 then [CHR 0x5C, CHR ''u'', CHR ''f'', CHR ''f'', CHR ''f'', CHR ''d''] @ json_escape cs
           else if map byte (take 3 (c # cs)) = [226, 128, 168]
             then [CHR 0x5C, CHR ''u'', CHR ''2'', CHR ''0'', CHR ''2'', CHR ''8''] @ json_escape (drop 2 cs)
           else if map byte (take 3 (c # cs)) = [226, 128, 169]
             then [CHR 0x5C, CHR ''u'', CHR ''2'', CHR ''0'', CHR ''2'', CHR ''9''] @ json_escape (drop 2 cs)
           else take n (c # cs) @ json_escape (drop (n - 1) cs))"
    unfolding n_def by (subst json_escape.simps(2)) (simp only: Let_def)
  have val: "utf8_valid (c # cs) =
     (if byte c < 128 then utf8_valid cs else n \<noteq> 0 \<and> utf8_valid (drop (n - 1) cs))"
    unfolding n_def by (subst utf8_valid.simps(2)) (simp only: Let_def)
  consider (ascii) "byte c < 128"
    | (bad) "\<not> byte c < 128" "n = 0"
    | (sep) "\<not> byte c < 128" "n \<noteq> 0"
        "map byte (take 3 (c # cs)) = [226, 128, 168] \<or> map byte (take 3 (c # cs)) = [226, 128, 169]"
    | (mb) "\<not> byte c < 128" "n \<noteq> 0" "map byte (take 3 (c # cs)) \<noteq> [226, 128, 168]"
        "map byte (take 3 (c # cs)) \<noteq> [226, 128, 169]"
    by blast
  then show ?thesis
  proof cases
    case ascii
    note a = ascii_chunk [OF ascii]
    show ?thesis
      apply (rule exI [of _ "json_escape_ascii c"], rule exI [of _ "[c]"], rule exI [of _ cs])
      using ascii a by (simp add: esc val)
  next
    case bad
    show ?thesis
      apply (rule exI [of _ "[CHR 0x5C, CHR ''u'', CHR ''f'', CHR ''f'', CHR ''f'', CHR ''d'']"],
          rule exI [of _ "[c]"], rule exI [of _ cs])
      using bad fffd_chunk by (simp add: esc val)
  next
    case sep
    note pr = utf8_width_props [OF n_def [symmetric] sep(2)]
    have c: "byte c = 226" using sep(3) by auto
    have n3: "n = 3" using pr(5) by (simp add: c utf8_need_def)
    have len: "2 \<le> length cs" using pr(1) n3 by simp
    have split: "c # cs = take 3 (c # cs) @ drop 2 cs"
      using append_take_drop_id [of 3 "c # cs"] by simp
    have u: "utf8_valid (c # cs) \<longrightarrow> utf8_valid (drop 2 cs)"
      using sep(1) n3 by (simp add: val)
    from sep(3) show ?thesis
    proof
      assume m: "map byte (take 3 (c # cs)) = [226, 128, 168]"
      have src: "take 3 (c # cs) = [CHR 0xE2, CHR 0x80, CHR 0xA8]"
        by (rule map_byte_inj) (simp only: m sep_bytes)
      have e: "json_escape (c # cs) = [CHR 0x5C, CHR ''u'', CHR ''2'', CHR ''0'', CHR ''2'', CHR ''8''] @ json_escape (drop 2 cs)"
        unfolding esc using sep(1,2) m by simp
      show ?thesis
        apply (rule exI [of _ "[CHR 0x5C, CHR ''u'', CHR ''2'', CHR ''0'', CHR ''2'', CHR ''8'']"],
            rule exI [of _ "take 3 (c # cs)"], rule exI [of _ "drop 2 cs"])
        apply (intro conjI)
             apply (rule split)
            apply (simp add: src)
           apply (rule e)
          using sep_chunk(1) [of "CHR ''8''"] apply blast
         using sep_chunk(2) [of "CHR ''8''"] apply blast
        using u sep_unquote(1) unfolding src by simp
    next
      assume m: "map byte (take 3 (c # cs)) = [226, 128, 169]"
      have src: "take 3 (c # cs) = [CHR 0xE2, CHR 0x80, CHR 0xA9]"
        by (rule map_byte_inj) (simp only: m sep_bytes)
      have e: "json_escape (c # cs) = [CHR 0x5C, CHR ''u'', CHR ''2'', CHR ''0'', CHR ''2'', CHR ''9''] @ json_escape (drop 2 cs)"
        unfolding esc using sep(1,2) m by simp
      show ?thesis
        apply (rule exI [of _ "[CHR 0x5C, CHR ''u'', CHR ''2'', CHR ''0'', CHR ''2'', CHR ''9'']"],
            rule exI [of _ "take 3 (c # cs)"], rule exI [of _ "drop 2 cs"])
        apply (intro conjI)
             apply (rule split)
            apply (simp add: src)
           apply (rule e)
          using sep_chunk(1) [of "CHR ''9''"] apply blast
         using sep_chunk(2) [of "CHR ''9''"] apply blast
        using u sep_unquote(2) unfolding src by simp
    qed
  next
    case mb
    note pr = utf8_width_props [OF n_def [symmetric] mb(2)]
    note m = mb_chunk [OF mb(1) n_def [symmetric] mb(2)]
    have e: "json_escape (c # cs) = take n (c # cs) @ json_escape (drop (n - 1) cs)"
      unfolding esc by (simp only: mb if_False simp_thms)
    have split: "c # cs = take n (c # cs) @ drop (n - 1) cs"
      using append_take_drop_id [of n "c # cs"] pr(2) by (cases n) auto
    have pl: "\<forall>x \<in> set (take n (c # cs)). x \<noteq> CHR 0x22 \<and> x \<noteq> CHR 0x5C"
    proof (intro ballI conjI)
      fix x assume a: "x \<in> set (take n (c # cs))"
      have h: "128 \<le> byte x" by (rule bspec [OF m(3) a])
      show "x \<noteq> CHR 0x22" by (rule high_byte_plain(1) [OF h])
      show "x \<noteq> CHR 0x5C" by (rule high_byte_plain(2) [OF h])
    qed
    have pv: "\<forall>x \<in> set (take n (c # cs)). x \<noteq> CHR 0x5C \<and> 32 \<le> byte x"
    proof (intro ballI conjI)
      fix x assume a: "x \<in> set (take n (c # cs))"
      have h: "128 \<le> byte x" by (rule bspec [OF m(3) a])
      show "x \<noteq> CHR 0x5C" by (rule high_byte_plain(2) [OF h])
      show "32 \<le> byte x" by (rule high_byte_plain(3) [OF h])
    qed
    show ?thesis
      apply (rule exI [of _ "take n (c # cs)"], rule exI [of _ "take n (c # cs)"],
          rule exI [of _ "drop (n - 1) cs"])
      apply (intro conjI)
           apply (rule split)
          apply (simp add: m(1))
         apply (rule e)
        using lex_plain_list [OF pl] apply blast
       using valid_body_plain_list [OF pv] apply blast
      using mb(1,2) mb_unquote [OF mb(1) n_def [symmetric] mb(2)] by (simp add: val)
  qed
qed

text \<open>The body that the encoder writes is passed over by the lexer and is well formed.\<close>

lemma lex_json_escape:
  "lex (LStr acc False) (json_escape s @ rest) = lex (LStr (rev (json_escape s) @ acc) False) rest"
proof (induction "length s" arbitrary: s acc rule: less_induct)
  case less
  show ?case
  proof (cases s)
    case Nil
    then show ?thesis by simp
  next
    case (Cons c cs)
    from json_escape_step [of c cs] obtain chunk src tl where
      st: "c # cs = src @ tl" "src \<noteq> []" "json_escape (c # cs) = chunk @ json_escape tl"
        "\<And>acc rest. lex (LStr acc False) (chunk @ rest) = lex (LStr (rev chunk @ acc) False) rest"
      by blast
    have "length tl < length s" using st(1,2) Cons
      by (metis append_eq_conv_conj length_drop length_greater_0_conv diff_less length_Cons zero_less_Suc)
    from less [OF this] show ?thesis
      by (simp add: Cons st(3) st(4))
  qed
qed

lemma valid_body_json_escape: "valid_body (json_escape s @ rest) = valid_body rest"
proof (induction "length s" arbitrary: s rule: less_induct)
  case less
  show ?case
  proof (cases s)
    case Nil
    then show ?thesis by simp
  next
    case (Cons c cs)
    from json_escape_step [of c cs] obtain chunk src tl where
      st: "c # cs = src @ tl" "src \<noteq> []" "json_escape (c # cs) = chunk @ json_escape tl"
        "\<And>rest. valid_body (chunk @ rest) = valid_body rest"
      by blast
    have "length tl < length s" using st(1,2) Cons
      by (metis append_eq_conv_conj length_drop length_greater_0_conv diff_less length_Cons zero_less_Suc)
    from less [OF this] show ?thesis
      by (simp add: Cons st(3) st(4))
  qed
qed

text \<open>Unquoting the body gives the string back when the string is well-formed UTF-8.\<close>

lemma json_unquote_json_escape:
  "utf8_valid s \<Longrightarrow> json_unquote (json_escape s) = s"
proof (induction "length s" arbitrary: s rule: less_induct)
  case less
  show ?case
  proof (cases s)
    case Nil
    then show ?thesis by simp
  next
    case (Cons c cs)
    from json_escape_step [of c cs] less.prems obtain chunk src tl where
      st: "c # cs = src @ tl" "src \<noteq> []" "json_escape (c # cs) = chunk @ json_escape tl"
        "utf8_valid tl" "\<And>rest. json_unquote (chunk @ rest) = src @ json_unquote rest"
      unfolding Cons by blast
    have "length tl < length s" using st(1,2) Cons
      by (metis append_eq_conv_conj length_drop length_greater_0_conv diff_less length_Cons zero_less_Suc)
    from less(1) [OF this st(4)] have "json_unquote (json_escape (c # cs)) = src @ tl"
      by (simp only: st(3) st(5))
    then show ?thesis by (simp only: Cons st(1))
  qed
qed

text \<open>A byte that starts no well-formed encoding does not come back.\<close>

lemma json_unquote_invalid_byte:
  "json_unquote (json_escape [CHR 0xFF]) = [CHR 0xEF, CHR 0xBF, CHR 0xBD]"
  by (simp add: json_escape.simps(2) json_unquote.simps(2) byte_def utf8_width_def utf8_need_def
      hexval_def utf8_EncodeRune_def char_of_eq_iff)

subsection \<open>The cache file read back\<close>

lemma lex_json_string: "lex LIdle (json_string s @ rest) = TStr (json_escape s) # lex LIdle rest"
  by (simp add: json_string_def json_space_def structural_def byte_def lex_json_escape)

lemma valid_body_escaped: "valid_body (json_escape s)"
  using valid_body_json_escape [of s "[]"] by simp

lemma lex_item:
  "lex LIdle (json_Marshal_item (save_item creds)) =
     [TLBrace, TStr ''Credentials'', TColon, TLBrace,
      TStr ''AccessKeyId'', TColon, TStr (json_escape (AccessKeyID creds)), TComma,
      TStr ''SecretAccessKey'', TColon, TStr (json_escape (SecretAccessKey' creds)), TComma,
      TStr ''SessionToken'', TColon, TStr (json_escape (SessionToken' creds)), TComma,
      TStr ''Expiration'', TColon, TStr (json_escape (Format_layout (Expires creds))),
      TRBrace, TRBrace]"
  by (simp add: json_Marshal_item_def save_item_def json_Marshal_CachedCredentials_def
      ExpireTime_MarshalJSON_def lex_json_string json_space_def structural_def byte_def)

lemma parse_item:
  "json_parse (json_Marshal_item (save_item creds)) =
     Some (JObj [(''Credentials'',
       JObj [(''AccessKeyId'', JStr (json_escape (AccessKeyID creds))),
             (''SecretAccessKey'', JStr (json_escape (SecretAccessKey' creds))),
             (''SessionToken'', JStr (json_escape (SessionToken' creds))),
             (''Expiration'', JStr (json_escape (Format_layout (Expires creds))))])])"
  unfolding json_parse_def lex_item
  by (simp add: step_def begin_value_def begin_key_def push_def close_object_def scalar_def
      json_unquote.simps(2) byte_def valid_body_escaped)

lemma fold_item_keys:
  "foldName ''Credentials'' = ''CREDENTIALS''" "foldName ''AccessKeyId'' = ''ACCESSKEYID''"
  "foldName ''SecretAccessKey'' = ''SECRETACCESSKEY''" "foldName ''SessionToken'' = ''SESSIONTOKEN''"
  "foldName ''Expiration'' = ''EXPIRATION''"
  by (simp_all add: foldName.simps(2) byte_def char_of_eq_iff)

lemma decode_ExpireTime_Format:
  assumes "0 \<le> year (civil_of t)" "year (civil_of t) \<le> 9999"
  shows "decode_ExpireTime (JStr (json_escape (Format_layout t)))
           = Some \<lparr>unix = unix t + zone t, nanos = 0, zone = 0\<rparr>"
  using ExpireTime_roundtrip_general [OF assms]
  by (simp add: decode_ExpireTime_def ExpireTime_MarshalJSON_def json_string_def)

text \<open>
  What \<^verbatim>\<open>json.Unmarshal\<close> reads from the text that \<^verbatim>\<open>save\<close> writes: the three
  strings as they are, and the clock of the expiration as a time in UTC.
\<close>

lemma Unmarshal_item:
  assumes "utf8_valid (AccessKeyID creds)" "utf8_valid (SecretAccessKey' creds)"
    "utf8_valid (SessionToken' creds)"
    "0 \<le> year (civil_of (Expires creds))" "year (civil_of (Expires creds)) \<le> 9999"
  shows "json_Unmarshal (json_Marshal_item (save_item creds)) =
     Some \<lparr>Credentials = Some
       \<lparr>AccessKeyId = AccessKeyID creds, SecretAccessKey = SecretAccessKey' creds,
        SessionToken = SessionToken' creds,
        Expiration = \<lparr>unix = unix (Expires creds) + zone (Expires creds), nanos = 0, zone = 0\<rparr>\<rparr>\<rparr>"
  unfolding json_Unmarshal_def parse_item
  by (simp add: fold_item_keys decode_string_def json_unquote_json_escape assms(1-3)
      decode_ExpireTime_Format [OF assms(4,5)] zero_CachedCredentials_def)

section \<open>Properties of the cache\<close>

lemma path_Inr:
  assumes "path c w = (Inr p, c1)"
  shows "fullPath c1 = p" "p \<noteq> []" "provider c1 = provider c" "forceRefresh c1 = forceRefresh c"
    "cacheKey c1 = cacheKey c" "path c1 w' = (Inr p, c1)"
  using assms by (auto simp: path_def Let_def split: if_splits option.splits)

lemma path_same_home: "home w' = home w \<Longrightarrow> path c w' = path c w"
  by (simp add: path_def)

lemma save_unfold:
  assumes "path c w = (Inr p, c1)"
  shows "save c creds w =
     (case save_mkdir (butlast p) w of
        (Some e, w1) \<Rightarrow> (Inr (Some (ErrMakeDirs e)), c1, w1)
      | (None, w1) \<Rightarrow>
          (case os_WriteFile p (json_Marshal_item (save_item creds)) w1 of
             (Some e, w2) \<Rightarrow> (Inr (Some (ErrWriteCache e)), c1, w2)
           | (None, w2) \<Rightarrow> (Inr None, c1, w2)))"
  by (simp add: save_def assms)

lemma save_mkdir_cases:
  "save_mkdir dir w =
     (case fs w dir of
        None \<Rightarrow> (None, w\<lparr>trace := trace w @ [EvStat dir]\<rparr>)
      | Some (Dir b) \<Rightarrow> (None, w\<lparr>trace := trace w @ [EvStat dir, EvMkdirAll dir]\<rparr>)
      | Some (File d r wr) \<Rightarrow> (Some ENOTDIR, w\<lparr>trace := trace w @ [EvStat dir, EvMkdirAll dir]\<rparr>))"
  by (simp add: save_mkdir_def pathExists_def os_Stat_def os_MkdirAll_def log_event_def
      split: option.splits node.splits)

lemma os_WriteFile_cases:
  "os_WriteFile p data w =
     (case write_node (fs w) p data of
        Inl e \<Rightarrow> (Some e, w\<lparr>trace := trace w @ [EvWriteFile p data]\<rparr>)
      | Inr n \<Rightarrow> (None, w\<lparr>fs := (fs w)(p \<mapsto> n), trace := trace w @ [EvWriteFile p data]\<rparr>))"
  by (simp add: os_WriteFile_def log_event_def split: sum.splits)

lemma write_node_Inr:
  assumes "write_node f p data = Inr n"
  shows "\<exists>r. n = File data r True" "\<forall>b. f p \<noteq> Some (Dir b)"
  using assms by (auto simp: write_node_def split: option.splits node.splits if_splits)

text \<open>What \<open>save\<close> does to the world, when the path is known.\<close>

lemma save_effect:
  assumes "path c w = (Inr p, c1)" "save c creds w = (r, c', w')"
  shows "c' = c1"
    and "\<exists>evs. trace w' = trace w @ EvStat (butlast p) # evs
           \<and> (\<forall>q. EvReadFile q \<notin> set evs) \<and> EvRetrieve \<notin> set evs
           \<and> (\<forall>q. EvStat q \<notin> set evs)
           \<and> (EvMkdirAll (butlast p) \<in> set evs \<longleftrightarrow> fs w (butlast p) \<noteq> None)"
    and "\<forall>q b. fs w' q = Some (Dir b) \<longleftrightarrow> fs w q = Some (Dir b)"
    and "home w' = home w" "now w' = now w"
    and "r = Inr None \<longrightarrow> (\<exists>rd. fs w' p = Some (File (json_Marshal_item (save_item creds)) rd True))"
    and "\<exists>err. r = Inr err \<and> (err = None \<or> (\<exists>e. err = Some (ErrMakeDirs e)) \<or> (\<exists>e. err = Some (ErrWriteCache e)))"
  using assms(2) write_node_Inr [of "fs w" p "json_Marshal_item (save_item creds)"]
  unfolding save_unfold [OF assms(1)] save_mkdir_cases os_WriteFile_cases
  by (auto split: option.splits node.splits sum.splits if_splits)


lemma get_unfold:
  assumes "path c w = (Inr p, c1)"
  shows "get c w =
     (case fs w p of
        None \<Rightarrow> (Inr (zero_Credentials\<lparr>CanExpire := True\<rparr>, Some ErrCacheMissing), c1,
                  w\<lparr>trace := trace w @ [EvStat p]\<rparr>)
      | Some (Dir b) \<Rightarrow> (Inr (zero_Credentials\<lparr>CanExpire := True\<rparr>, Some (ErrReadCache EISDIR)), c1,
                  w\<lparr>trace := trace w @ [EvStat p, EvReadFile p]\<rparr>)
      | Some (File d r wr) \<Rightarrow>
          (if r then get_decode (zero_Credentials\<lparr>CanExpire := True\<rparr>) d
           else Inr (zero_Credentials\<lparr>CanExpire := True\<rparr>, Some (ErrReadCache EACCES)), c1,
           w\<lparr>trace := trace w @ [EvStat p, EvReadFile p]\<rparr>))"
  by (simp add: get_def assms pathExists_def os_Stat_def os_ReadFile_def log_event_def
      split: option.splits node.splits)

text \<open>The fall back on the provider, when the path is known.\<close>

lemma Load_provider_effect:
  assumes "path c w0 = (Inr p, c)"
  shows "\<exists>err evs w'. Load_provider c w = (Inr (fst (provider c w), err), c, w')
          \<and> (err = snd (provider c w)
              \<or> (snd (provider c w) = None
                  \<and> ((\<exists>e. err = Some (ErrMakeDirs e)) \<or> (\<exists>e. err = Some (ErrWriteCache e)))))
          \<and> trace w' = trace w @ EvRetrieve # evs
          \<and> (\<forall>q. EvReadFile q \<notin> set evs) \<and> (\<forall>q. EvStat q \<in> set evs \<longrightarrow> q = butlast p)"
proof (cases "provider c w")
  case (Pair creds perr)
  show ?thesis
  proof (cases perr)
    case (Some e)
    then show ?thesis using Pair
      by (simp add: Load_provider_def Retrieve_def log_event_def)
  next
    case None
    have pth: "path c (log_event EvRetrieve w) = (Inr p, c)"
      using path_Inr(6) [OF assms] by simp
    obtain r c' w' where sv: "save c creds (log_event EvRetrieve w) = (r, c', w')"
      by (cases "save c creds (log_event EvRetrieve w)") auto
    from save_effect(1,2,7) [OF pth sv] obtain err evs where
      e: "c' = c" "r = Inr err"
         "err = None \<or> (\<exists>e. err = Some (ErrMakeDirs e)) \<or> (\<exists>e. err = Some (ErrWriteCache e))"
         "trace w' = trace (log_event EvRetrieve w) @ EvStat (butlast p) # evs"
         "\<forall>q. EvReadFile q \<notin> set evs" "\<forall>q. EvStat q \<notin> set evs"
      by blast
    have "Load_provider c w = (Inr (creds, err), c, w')"
      using Pair None sv e(1,2) by (simp add: Load_provider_def Retrieve_def)
    then show ?thesis using Pair None e(3-6)
      by (auto simp: log_event_def)
  qed
qed

text \<open>Reading back what \<open>save\<close> has written.\<close>

lemma save_Inr_None:
  assumes "save c creds w = (Inr None, c1, w1)"
  shows "path c w = (Inr (fullPath c1), c1)" "home w1 = home w"
    "fs w1 (fullPath c1) =
       Some (File (json_Marshal_item (save_item creds))
          (case fs w (fullPath c1) of Some (File d r wr) \<Rightarrow> r | _ \<Rightarrow> True) True)"
proof -
  obtain r c' where pc: "path c w = (r, c')" by (cases "path c w")
  obtain p where r: "r = Inr p" using assms pc by (cases r) (auto simp: save_def)
  have pth: "path c w = (Inr p, c')" using pc r by simp
  have res: "c1 = c' \<and> home w1 = home w \<and>
      fs w1 p = Some (File (json_Marshal_item (save_item creds))
          (case fs w p of Some (File d r wr) \<Rightarrow> r | _ \<Rightarrow> True) True)"
    using assms unfolding save_unfold [OF pth] save_mkdir_cases os_WriteFile_cases
    by (auto simp: write_node_def split: option.splits node.splits sum.splits if_splits)
  have fp: "fullPath c1 = p" using path_Inr(1) [OF pth] res by simp
  show "path c w = (Inr (fullPath c1), c1)" using pth res fp by simp
  show "home w1 = home w" using res by simp
  show "fs w1 (fullPath c1) =
       Some (File (json_Marshal_item (save_item creds))
          (case fs w (fullPath c1) of Some (File d r wr) \<Rightarrow> r | _ \<Rightarrow> True) True)"
    using res fp by simp
qed

lemma get_decode_item:
  assumes "utf8_valid (AccessKeyID creds)" "utf8_valid (SecretAccessKey' creds)"
    "utf8_valid (SessionToken' creds)"
    "0 \<le> year (civil_of (Expires creds))" "year (civil_of (Expires creds)) \<le> 9999"
  shows "get_decode (zero_Credentials\<lparr>CanExpire := True\<rparr>) (json_Marshal_item (save_item creds)) =
     Inr (\<lparr>AccessKeyID = AccessKeyID creds, SecretAccessKey' = SecretAccessKey' creds,
           SessionToken' = SessionToken' creds, Source = [], CanExpire = True,
           Expires = \<lparr>unix = unix (Expires creds) + zone (Expires creds), nanos = 0, zone = 0\<rparr>\<rparr>, None)"
  by (simp add: get_decode_def Unmarshal_item [OF assms] zero_Credentials_def)

lemma Load_reads_item:
  assumes pth: "path c w = (Inr p, c1)"
    and nf: "\<not> forceRefresh c"
    and fl: "fs w p = Some (File (json_Marshal_item (save_item creds)) True wr)"
    and s: "utf8_valid (AccessKeyID creds)" "utf8_valid (SecretAccessKey' creds)"
      "utf8_valid (SessionToken' creds)"
    and e: "0 \<le> year (civil_of (Expires creds))" "year (civil_of (Expires creds)) \<le> 9999"
  shows "Load c w =
     (if After \<lparr>unix = unix (Expires creds) + zone (Expires creds), nanos = 0, zone = 0\<rparr> (now w)
      then (Inr (\<lparr>AccessKeyID = AccessKeyID creds, SecretAccessKey' = SecretAccessKey' creds,
                  SessionToken' = SessionToken' creds, Source = [], CanExpire = True,
                  Expires = \<lparr>unix = unix (Expires creds) + zone (Expires creds), nanos = 0, zone = 0\<rparr>\<rparr>,
                 None),
            c1, w\<lparr>trace := trace w @ [EvStat p, EvReadFile p]\<rparr>)
      else Load_provider c1 (w\<lparr>trace := trace w @ [EvStat p, EvReadFile p]\<rparr>))"
  by (simp add: Load_def Load_cached_def nf get_unfold [OF pth] fl
      get_decode_item [OF s e] Expired_def)

lemma Load_after_save_general:
  assumes sv: "save c creds w = (Inr None, c1, w1)"
    and nf: "\<not> forceRefresh c"
    and rd: "\<forall>d r wr. fs w (fullPath c1) = Some (File d r wr) \<longrightarrow> r"
    and s: "utf8_valid (AccessKeyID creds)" "utf8_valid (SecretAccessKey' creds)"
      "utf8_valid (SessionToken' creds)"
    and yr: "0 \<le> year (civil_of (Expires creds))" "year (civil_of (Expires creds)) \<le> 9999"
    and w2: "fs w2 = fs w1" "home w2 = home w1"
    and c2: "c2 = c \<or> c2 = c1"
  shows "Load c2 w2 =
     (if After \<lparr>unix = unix (Expires creds) + zone (Expires creds), nanos = 0, zone = 0\<rparr> (now w2)
      then (Inr (\<lparr>AccessKeyID = AccessKeyID creds, SecretAccessKey' = SecretAccessKey' creds,
                  SessionToken' = SessionToken' creds, Source = [], CanExpire = True,
                  Expires = \<lparr>unix = unix (Expires creds) + zone (Expires creds), nanos = 0, zone = 0\<rparr>\<rparr>,
                 None),
            c1, w2\<lparr>trace := trace w2 @ [EvStat (fullPath c1), EvReadFile (fullPath c1)]\<rparr>)
      else Load_provider c1 (w2\<lparr>trace := trace w2 @ [EvStat (fullPath c1), EvReadFile (fullPath c1)]\<rparr>))"
proof -
  note sn = save_Inr_None [OF sv]
  have hm: "home w2 = home w" using sn(2) w2(2) by simp
  have p2: "path c w2 = (Inr (fullPath c1), c1)"
    using path_same_home [OF hm, of c] sn(1) by simp
  have p1: "path c1 w2 = (Inr (fullPath c1), c1)" by (rule path_Inr(6) [OF sn(1)])
  have nf1: "\<not> forceRefresh c1" using path_Inr(4) [OF sn(1)] nf by simp
  have fl: "fs w2 (fullPath c1) = Some (File (json_Marshal_item (save_item creds)) True True)"
    using sn(3) rd w2(1) by (auto split: option.splits node.splits)
  from c2 show ?thesis
  proof
    assume "c2 = c"
    then show ?thesis using Load_reads_item [OF p2 nf fl s yr] by simp
  next
    assume "c2 = c1"
    then show ?thesis using Load_reads_item [OF p1 nf1 fl s yr] by simp
  qed
qed

subsection \<open>Evaluation on the example values\<close>

lemma world0_sel [simp]:
  "fs (world0 f t) = f" "home (world0 f t) = Some [''home'', ''u'']" "now (world0 f t) = t"
  "trace (world0 f t) = []"
  by (simp_all add: world0_def)

lemma path_cache0:
  "path (cache0 force) (world0 f t) = (Inr path0, (cache0 force)\<lparr>fullPath := path0\<rparr>)"
  by (simp add: path_def Let_def cache0_def world0_def path0_def dir0_def)

lemma path0_facts: "butlast path0 = dir0" "path0 \<noteq> dir0" "dir0 \<noteq> path0"
  by (simp_all add: path0_def dir0_def)

lemmas json_eval =
  json_Unmarshal_def json_parse_def json_space_def structural_def byte_def step_def begin_value_def
  begin_key_def push_def close_object_def close_array_def scalar_def json_unquote.simps(2)
  foldName.simps(2) decode_string_def decode_ExpireTime_def char_of_eq_iff

lemma Unmarshal_truncated: \<open>json_Unmarshal ''{"Credentials":'' = None\<close>
  by (simp add: json_eval)

lemma lex_data6:
  "lex LIdle data6 = [TLBrace, TStr ''Credentials'', TColon, TLBrace, TStr ''Expiration'', TColon,
     TStr ''2024-02-29T23:59:59+00:00'', TRBrace, TRBrace]"
  by (simp add: data6_def json_eval)

lemma parse_data6:
  "json_parse data6 = Some (JObj [(''Credentials'', JObj [(''Expiration'', JStr ''2024-02-29T23:59:59+00:00'')])])"
  unfolding json_parse_def lex_data6 by (simp add: json_eval)

lemma fold_keys: "foldName ''Credentials'' = ''CREDENTIALS''" "foldName ''Expiration'' = ''EXPIRATION''"
  by (simp_all add: json_eval)

lemma parse_time6:
  "Parse_layout ''2024-02-29T23:59:59+00:00'' = Some \<lparr>unix = 1709251199, nanos = 0, zone = 0\<rparr>"
  by (simp add: Parse_layout_def get_year_def isDigit_def digit_val_def byte_def skip_def getnum_def
      guard_def get_fraction_def commaOrPeriod_def daysIn_def month_lengths_def isLeap_def
      time_Date_def days_before_year_def)

lemma Unmarshal_data6:
  "json_Unmarshal data6 = Some \<lparr>Credentials = Some (zero_CachedCredentials
      \<lparr>Expiration := \<lparr>unix = 1709251199, nanos = 0, zone = 0\<rparr>\<rparr>)\<rparr>"
  unfolding json_Unmarshal_def parse_data6
  by (simp add: fold_keys decode_ExpireTime_def ExpireTime_UnmarshalJSON_def strings_Trim_def parse_time6)


lemma provider_cache0 [simp]: "provider (cache0 b) w = (creds0, None)"
  "forceRefresh (cache0 b) = b" "forceRefresh ((cache0 b)\<lparr>fullPath := q\<rparr>) = b"
  "provider ((cache0 b)\<lparr>fullPath := q\<rparr>) w = (creds0, None)"
  by (simp_all add: cache0_def)

lemma path_cache0_logged:
  "path (cache0 force) (log_event e (world0 f t)) = (Inr path0, (cache0 force)\<lparr>fullPath := path0\<rparr>)"
  using path_same_home [of "log_event e (world0 f t)" "world0 f t" "cache0 force"]
  by (simp add: path_cache0 log_event_def)

lemma save_cache0_no_root:
  "save (cache0 b) creds (log_event EvRetrieve (world0 Map.empty t)) =
     (Inr (Some (ErrWriteCache ENOENT)), (cache0 b)\<lparr>fullPath := path0\<rparr>,
      (world0 Map.empty t)\<lparr>trace := [EvRetrieve, EvStat dir0,
                                     EvWriteFile path0 (json_Marshal_item (save_item creds))]\<rparr>)"
  unfolding save_unfold [OF path_cache0_logged] save_mkdir_cases os_WriteFile_cases
  by (simp add: path0_facts write_node_def log_event_def)

lemma save_cache0_stale:
  "save (cache0 b) creds (log_event EvRetrieve (world0 fs_stale t)) =
     (Inr None, (cache0 b)\<lparr>fullPath := path0\<rparr>,
      (world0 fs_stale t)\<lparr>fs := fs_stale(path0 \<mapsto> File (json_Marshal_item (save_item creds)) True True),
                          trace := [EvRetrieve, EvStat dir0, EvMkdirAll dir0,
                                    EvWriteFile path0 (json_Marshal_item (save_item creds))]\<rparr>)"
  unfolding save_unfold [OF path_cache0_logged] save_mkdir_cases os_WriteFile_cases
  by (simp add: path0_facts write_node_def log_event_def fs_stale_def)

lemma save_cache0_file_at_dir:
  "save (cache0 b) creds (log_event EvRetrieve (world0 fs_file_at_dir t)) =
     (Inr (Some (ErrMakeDirs ENOTDIR)), (cache0 b)\<lparr>fullPath := path0\<rparr>,
      (world0 fs_file_at_dir t)\<lparr>trace := [EvRetrieve, EvStat dir0, EvMkdirAll dir0]\<rparr>)"
  unfolding save_unfold [OF path_cache0_logged] save_mkdir_cases
  by (simp add: path0_facts log_event_def fs_file_at_dir_def)

lemma Load_forced_cache0:
  "Load (cache0 True) (world0 fs_stale t) =
     (Inr (creds0, None), (cache0 True)\<lparr>fullPath := path0\<rparr>,
      (world0 fs_stale t)\<lparr>fs := fs_stale(path0 \<mapsto> File (json_Marshal_item (save_item creds0)) True True),
                          trace := [EvRetrieve, EvStat dir0, EvMkdirAll dir0,
                                    EvWriteFile path0 (json_Marshal_item (save_item creds0))]\<rparr>)"
  by (simp add: Load_def Load_cached_def Load_provider_def Retrieve_def save_cache0_stale)

lemma save_cache0_saved:
  "save (cache0 b) creds (world0 fs_stale t) =
     (Inr None, (cache0 b)\<lparr>fullPath := path0\<rparr>, world_saved creds t)"
  unfolding save_unfold [OF path_cache0] save_mkdir_cases os_WriteFile_cases
  by (simp add: path0_facts write_node_def fs_stale_def world0_def world_saved_def)

lemma world_saved_sel [simp]:
  "fs (world_saved creds t) = fs_stale(path0 \<mapsto> File (json_Marshal_item (save_item creds)) True True)"
  "home (world_saved creds t) = Some [''home'', ''u'']" "now (world_saved creds t) = t"
  "trace (world_saved creds t) =
     [EvStat dir0, EvMkdirAll dir0, EvWriteFile path0 (json_Marshal_item (save_item creds))]"
  by (simp_all add: world_saved_def)

lemma civil_of_creds0:
  "civil_of \<lparr>unix = 1709251199, nanos = n, zone = 0\<rparr>
   = \<lparr>year = 2024, month = 2, day = 29, hour = 23, minute = 59, second = 59\<rparr>"
  by (simp add: civil_of_def year_of_days_738944 month_of_yday_2024_59)

lemma utf8_valid_creds0:
  "utf8_valid ''AKIAEXAMPLE''" "utf8_valid ''secret''" "utf8_valid ''token''"
  by (simp_all add: utf8_valid.simps(2) byte_def)

lemma creds0_sel:
  "AccessKeyID creds0 = ''AKIAEXAMPLE''" "SecretAccessKey' creds0 = ''secret''"
  "SessionToken' creds0 = ''token''" "Expires creds0 = \<lparr>unix = 1709251199, nanos = 0, zone = 0\<rparr>"
  "creds0\<lparr>Source := []\<rparr> =
     \<lparr>AccessKeyID = ''AKIAEXAMPLE'', SecretAccessKey' = ''secret'', SessionToken' = ''token'',
      Source = [], CanExpire = True, Expires = \<lparr>unix = 1709251199, nanos = 0, zone = 0\<rparr>\<rparr>"
  by (simp_all add: creds0_def)

lemma fs_stale_sel: "fs_stale path0 = Some (File data6 True True)" "fs_stale dir0 = Some (Dir True)"
  by (simp_all add: fs_stale_def path0_facts)

lemma creds_half_sel:
  "AccessKeyID creds_half = ''AKIAEXAMPLE''" "SecretAccessKey' creds_half = ''secret''"
  "SessionToken' creds_half = ''token''"
  "Expires creds_half = \<lparr>unix = 1709251199, nanos = 500000000, zone = 0\<rparr>"
  by (simp_all add: creds_half_def creds0_def)

lemma path_cache1: "path ((cache0 b)\<lparr>fullPath := path0\<rparr>) w = (Inr path0, (cache0 b)\<lparr>fullPath := path0\<rparr>)"
  by (rule path_Inr(6) [OF path_cache0 [of b Map.empty zero_Time]])

lemma path_cache0_saved:
  "path (cache0 b) (world_saved creds t) = (Inr path0, (cache0 b)\<lparr>fullPath := path0\<rparr>)"
  using path_same_home [of "world_saved creds t" "world0 Map.empty t" "cache0 b"]
  by (simp add: path_cache0)

lemma Load_provider_cache1_saved:
  "Load_provider ((cache0 b)\<lparr>fullPath := path0\<rparr>) ((world_saved creds t)\<lparr>trace := evs\<rparr>) =
     (Inr (creds0, None), (cache0 b)\<lparr>fullPath := path0\<rparr>,
      (world_saved creds0 t)\<lparr>trace := evs @ [EvRetrieve, EvStat dir0, EvMkdirAll dir0,
                                 EvWriteFile path0 (json_Marshal_item (save_item creds0))]\<rparr>)"
  unfolding Load_provider_def Retrieve_def save_unfold [OF path_cache1] save_mkdir_cases
    os_WriteFile_cases
  by (simp add: path0_facts write_node_def fs_stale_sel log_event_def world_saved_def)

section \<open>The claims\<close>

subsection \<open>The cache key\<close>

lemmas cacheKey_eval =
  cacheKey_text_def json_Marshal_cacheKey_def cacheKey_members_def json_member_def json_string_def
  strconv_Itoa_def nat_digits.simps json_escape.simps(2) json_escape_ascii_def byte_def char_of_eq_iff
  strings_ReplaceAll.simps spec_cacheKey_text_def

text \<open>
  The golden vector: for the role \<^verbatim>\<open>arn:aws:iam::123456789012:role/test\<close> and 3600
  seconds, the key is the digest of the text that the specification gives.
\<close>

lemma cacheKey_golden_text:
  \<open>cacheKey_text
     \<lparr>DurationSeconds = 3600, ExternalId = [],
      RoleArn = ''arn:aws:iam::123456789012:role/test'', SerialNumber = []\<rparr>
   = ''{"DurationSeconds": 3600, "RoleArn": "arn:aws:iam::123456789012:role/test"}''\<close>
  by (simp add: cacheKey_eval)

lemma cacheKey_golden_vector:
  \<open>computableCacheKey_String
     \<lparr>DurationSeconds = 3600, ExternalId = [],
      RoleArn = ''arn:aws:iam::123456789012:role/test'', SerialNumber = []\<rparr>
   = strings_ToLower (hex_EncodeToString (sha1_Sum
       ''{"DurationSeconds": 3600, "RoleArn": "arn:aws:iam::123456789012:role/test"}''))\<close>
  unfolding computableCacheKey_String_def cacheKey_golden_text ..

text \<open>
  C1. The key is the SHA-1 digest, in lowercase hexadecimal, of the marshalled text
  with one space after each colon of a member and after each comma between members,
  and nowhere else. The two replacements of \<^verbatim>\<open>String\<close> also match inside a
  string value: for the external id \<^verbatim>\<open>:x\<close> the opening quote of the value and its
  first byte form the pattern of the first replacement, and a space is inserted into
  the value. The text that is hashed then differs from the text of the specification.
\<close>

theorem cacheKey_text_space_in_value:
  \<open>cacheKey_text
     \<lparr>DurationSeconds = 3600, ExternalId = '':x'',
      RoleArn = ''arn:aws:iam::123456789012:role/test'', SerialNumber = []\<rparr>
     = ''{"DurationSeconds": 3600, "ExternalId": ": x", "RoleArn": "arn:aws:iam::123456789012:role/test"}''
   \<and> spec_cacheKey_text
     \<lparr>DurationSeconds = 3600, ExternalId = '':x'',
      RoleArn = ''arn:aws:iam::123456789012:role/test'', SerialNumber = []\<rparr>
     = ''{"DurationSeconds": 3600, "ExternalId": ":x", "RoleArn": "arn:aws:iam::123456789012:role/test"}''\<close>
  by (simp add: cacheKey_eval)

subsection \<open>The expiration in the cache file\<close>

text \<open>
  For a timestamp that is in UTC and whose year is from 0 to 9999, marshalling and
  unmarshalling gives back the timestamp to the second: the nanoseconds are dropped
  and nothing else changes.
\<close>

theorem ExpireTime_roundtrip_utc:
  assumes "zone t = 0" "0 \<le> year (civil_of t)" "year (civil_of t) \<le> 9999"
  shows "ExpireTime_UnmarshalJSON (ExpireTime_MarshalJSON t) = Some (t\<lparr>nanos := 0\<rparr>)"
  using ExpireTime_roundtrip_general [OF assms(2,3)] assms(1) by simp

theorem ExpireTime_roundtrip_utc_witness:
  "zone \<lparr>unix = 1709251199, nanos = 5, zone = 0\<rparr> = 0
   \<and> 0 \<le> year (civil_of \<lparr>unix = 1709251199, nanos = 5, zone = 0\<rparr>)
   \<and> year (civil_of \<lparr>unix = 1709251199, nanos = 5, zone = 0\<rparr>) \<le> 9999
   \<and> ExpireTime_UnmarshalJSON (ExpireTime_MarshalJSON \<lparr>unix = 1709251199, nanos = 5, zone = 0\<rparr>)
       = Some \<lparr>unix = 1709251199, nanos = 0, zone = 0\<rparr>"
  using ExpireTime_roundtrip_utc [of "\<lparr>unix = 1709251199, nanos = 5, zone = 0\<rparr>"]
  by (simp add: civil_of_leap_day)

text \<open>
  C8. Marshalling an expiration and unmarshalling the result should give back the
  timestamp to the second. \<^verbatim>\<open>MarshalJSON\<close> formats the timestamp without
  converting it to UTC: the layout writes the clock of the timestamp's own location
  and labels it \<^verbatim>\<open>+00:00\<close>. The timestamp 2024-02-29T23:59:59Z, held in a location
  one hour east of UTC, is written as \<^verbatim>\<open>2024-03-01T00:59:59+00:00\<close> and comes back
  as an instant 3600 seconds later.
\<close>

theorem ExpireTime_roundtrip_east_of_utc:
  "ExpireTime_MarshalJSON \<lparr>unix = 1709251199, nanos = 0, zone = 3600\<rparr>
     = json_string ''2024-03-01T00:59:59+00:00''
   \<and> ExpireTime_UnmarshalJSON
       (ExpireTime_MarshalJSON \<lparr>unix = 1709251199, nanos = 0, zone = 3600\<rparr>)
     = Some \<lparr>unix = 1709254799, nanos = 0, zone = 0\<rparr>"
  using ExpireTime_roundtrip_general [of "\<lparr>unix = 1709251199, nanos = 0, zone = 3600\<rparr>"]
  by (simp add: civil_of_leap_day_east ExpireTime_MarshalJSON_def Format_leap_day_east)

subsection \<open>Loading and saving\<close>

text \<open>
  C2. After a successful \<open>save\<close> of credentials, \<open>Load\<close> without a forced refresh
  returns the credentials of the cache file and does not call the provider: the access
  key id, the secret access key and the session token are those that were saved, byte
  for byte, and the expiration is the saved one without its nanoseconds. This holds
  when the three strings are well-formed UTF-8, the expiration is in UTC with a year
  from 0 to 9999 and, cut to the whole second, is after the current time, and when a
  cache file that was there before the \<open>save\<close> could be read. The world of the
  \<open>Load\<close> has the files that \<open>save\<close> has left and the same home directory; its clock
  and its trace are free. The cache is the one that was saved to, before or after
  \<open>save\<close> has stored the path in it.
\<close>

theorem Load_after_save:
  assumes sv: "save c creds w = (Inr None, c1, w1)"
    and nf: "\<not> forceRefresh c"
    and rd: "\<forall>d r wr. fs w (fullPath c1) = Some (File d r wr) \<longrightarrow> r"
    and s: "utf8_valid (AccessKeyID creds)" "utf8_valid (SecretAccessKey' creds)"
      "utf8_valid (SessionToken' creds)"
    and utc: "zone (Expires creds) = 0"
    and yr: "0 \<le> year (civil_of (Expires creds))" "year (civil_of (Expires creds)) \<le> 9999"
    and w2: "fs w2 = fs w1" "home w2 = home w1"
    and fresh: "After ((Expires creds)\<lparr>nanos := 0\<rparr>) (now w2)"
  shows "Load c w2 =
     (Inr (\<lparr>AccessKeyID = AccessKeyID creds, SecretAccessKey' = SecretAccessKey' creds,
            SessionToken' = SessionToken' creds, Source = [], CanExpire = True,
            Expires = (Expires creds)\<lparr>nanos := 0\<rparr>\<rparr>, None),
      c1, w2\<lparr>trace := trace w2 @ [EvStat (fullPath c1), EvReadFile (fullPath c1)]\<rparr>)
   \<and> Load c1 w2 = Load c w2"
proof -
  have ex: "\<lparr>unix = unix (Expires creds) + zone (Expires creds), nanos = 0, zone = 0\<rparr>
      = (Expires creds)\<lparr>nanos := 0\<rparr>"
    using utc by simp
  show ?thesis
    using Load_after_save_general [OF sv nf rd s yr w2, of c]
      Load_after_save_general [OF sv nf rd s yr w2, of c1] fresh
    unfolding ex by simp
qed

theorem Load_after_save_witness:
  "save (cache0 False) creds0 (world0 fs_stale zero_Time)
     = (Inr None, (cache0 False)\<lparr>fullPath := path0\<rparr>, world_saved creds0 zero_Time)
   \<and> \<not> forceRefresh (cache0 False)
   \<and> fs (world0 fs_stale zero_Time) (fullPath ((cache0 False)\<lparr>fullPath := path0\<rparr>))
       = Some (File data6 True True)
   \<and> utf8_valid (AccessKeyID creds0) \<and> utf8_valid (SecretAccessKey' creds0)
   \<and> utf8_valid (SessionToken' creds0)
   \<and> zone (Expires creds0) = 0
   \<and> 0 \<le> year (civil_of (Expires creds0)) \<and> year (civil_of (Expires creds0)) \<le> 9999
   \<and> After ((Expires creds0)\<lparr>nanos := 0\<rparr>) (now (world_saved creds0 zero_Time))
   \<and> Load (cache0 False) (world_saved creds0 zero_Time) =
       (Inr (creds0\<lparr>Source := []\<rparr>, None), (cache0 False)\<lparr>fullPath := path0\<rparr>,
        (world_saved creds0 zero_Time)\<lparr>trace :=
           [EvStat dir0, EvMkdirAll dir0, EvWriteFile path0 (json_Marshal_item (save_item creds0)),
            EvStat path0, EvReadFile path0]\<rparr>)
   \<and> Load ((cache0 False)\<lparr>fullPath := path0\<rparr>) (world_saved creds0 zero_Time)
       = Load (cache0 False) (world_saved creds0 zero_Time)"
  using Load_after_save [of "cache0 False" creds0 "world0 fs_stale zero_Time"
      "(cache0 False)\<lparr>fullPath := path0\<rparr>" "world_saved creds0 zero_Time"
      "world_saved creds0 zero_Time"]
  by (simp add: save_cache0_saved creds0_sel civil_of_creds0 utf8_valid_creds0 After_def zero_Time_def
      fs_stale_sel)

text \<open>
  The cache file holds the expiration to the second. Credentials that expire half a
  second after the current time are saved; the \<open>Load\<close> that follows reads an
  expiration that is equal to the current time, takes the entry for expired, calls
  the provider and writes the file again.
\<close>

theorem Load_after_save_subsecond:
  "After (Expires creds_half) time6
   \<and> save (cache0 False) creds_half (world0 fs_stale time6)
       = (Inr None, (cache0 False)\<lparr>fullPath := path0\<rparr>, world_saved creds_half time6)
   \<and> Load (cache0 False) (world_saved creds_half time6) =
       (Inr (creds0, None), (cache0 False)\<lparr>fullPath := path0\<rparr>,
        (world_saved creds0 time6)\<lparr>trace :=
           [EvStat dir0, EvMkdirAll dir0, EvWriteFile path0 (json_Marshal_item (save_item creds_half)),
            EvStat path0, EvReadFile path0, EvRetrieve,
            EvStat dir0, EvMkdirAll dir0, EvWriteFile path0 (json_Marshal_item (save_item creds0))]\<rparr>)"
proof -
  have fl: "fs (world_saved creds_half time6) path0
      = Some (File (json_Marshal_item (save_item creds_half)) True True)"
    by simp
  have "Load (cache0 False) (world_saved creds_half time6) =
      Load_provider ((cache0 False)\<lparr>fullPath := path0\<rparr>)
        ((world_saved creds_half time6)\<lparr>trace := trace (world_saved creds_half time6)
            @ [EvStat path0, EvReadFile path0]\<rparr>)"
    using Load_reads_item [OF path_cache0_saved [of False creds_half time6] _ fl]
    by (simp add: creds_half_sel utf8_valid_creds0 civil_of_creds0 After_def time6_def)
  then show ?thesis
    by (simp add: Load_provider_cache1_saved save_cache0_saved creds_half_sel After_def time6_def)
qed

text \<open>
  C3. Without a forced refresh, when the cache file is absent, cannot be read (it is
  a directory, or its permissions forbid it) or holds text that \<^verbatim>\<open>json.Unmarshal\<close>
  rejects, \<^verbatim>\<open>Load\<close> calls the provider and returns the credentials of the provider.
  The error that it returns is the one of the provider or, when the provider has
  succeeded, the one of \<^verbatim>\<open>save\<close>; the error of reading or decoding is not returned.
\<close>

theorem Load_cache_miss_falls_back:
  assumes "\<not> forceRefresh c" and "path c w = (Inr p, c1)"
    and "fs w p = None \<or> (\<exists>b. fs w p = Some (Dir b)) \<or> (\<exists>d wr. fs w p = Some (File d False wr))
         \<or> (\<exists>d wr. fs w p = Some (File d True wr) \<and> json_Unmarshal d = None)"
  shows "\<exists>w1 err evs c' w'.
           w1 = w\<lparr>trace := trace w @ (if fs w p = None then [EvStat p] else [EvStat p, EvReadFile p])\<rparr>
         \<and> Load c w = (Inr (fst (provider c w1), err), c', w')
         \<and> (err = snd (provider c w1)
              \<or> (snd (provider c w1) = None
                  \<and> ((\<exists>e. err = Some (ErrMakeDirs e)) \<or> (\<exists>e. err = Some (ErrWriteCache e)))))
         \<and> trace w' = trace w1 @ EvRetrieve # evs"
proof -
  define w1 where "w1 = w\<lparr>trace := trace w @ (if fs w p = None then [EvStat p] else [EvStat p, EvReadFile p])\<rparr>"
  have g: "\<exists>e. get c w = (Inr (zero_Credentials\<lparr>CanExpire := True\<rparr>, Some e), c1, w1)"
    using assms(3) unfolding get_unfold [OF assms(2)] w1_def
    by (auto simp: get_decode_def)
  then have lc: "Load_cached c w = (Inr None, c1, w1)"
    using assms(1) by (auto simp: Load_cached_def)
  have p1: "path c1 w = (Inr p, c1)" by (rule path_Inr(6) [OF assms(2)])
  from Load_provider_effect [OF p1, of w1] obtain err evs w' where
    lp: "Load_provider c1 w1 = (Inr (fst (provider c1 w1), err), c1, w')"
        "err = snd (provider c1 w1)
              \<or> (snd (provider c1 w1) = None
                  \<and> ((\<exists>e. err = Some (ErrMakeDirs e)) \<or> (\<exists>e. err = Some (ErrWriteCache e))))"
        "trace w' = trace w1 @ EvRetrieve # evs"
    by blast
  have "Load c w = (Inr (fst (provider c w1), err), c1, w')"
    using lc lp(1) path_Inr(3) [OF assms(2)] by (simp add: Load_def)
  then show ?thesis using lp(2,3) path_Inr(3) [OF assms(2)] unfolding w1_def by auto
qed

theorem Load_cache_miss_falls_back_witness:
  "\<not> forceRefresh (cache0 False)
   \<and> path (cache0 False) (world0 fs_truncated zero_Time) = (Inr path0, (cache0 False)\<lparr>fullPath := path0\<rparr>)
   \<and> (\<exists>d wr. fs (world0 fs_truncated zero_Time) path0 = Some (File d True wr) \<and> json_Unmarshal d = None)
   \<and> (\<exists>err evs c' w'.
         Load (cache0 False) (world0 fs_truncated zero_Time) = (Inr (creds0, err), c', w')
         \<and> (err = None \<or> (\<exists>e. err = Some (ErrMakeDirs e)) \<or> (\<exists>e. err = Some (ErrWriteCache e)))
         \<and> trace w' = [EvStat path0, EvReadFile path0] @ EvRetrieve # evs)"
proof -
  have h1: "\<not> forceRefresh (cache0 False)" by simp
  note h2 = path_cache0 [of False fs_truncated zero_Time]
  have h3: "\<exists>d wr. fs (world0 fs_truncated zero_Time) path0 = Some (File d True wr) \<and> json_Unmarshal d = None"
    by (auto simp: fs_truncated_def Unmarshal_truncated)
  then have h3': "fs (world0 fs_truncated zero_Time) path0 = None
     \<or> (\<exists>b. fs (world0 fs_truncated zero_Time) path0 = Some (Dir b))
     \<or> (\<exists>d wr. fs (world0 fs_truncated zero_Time) path0 = Some (File d False wr))
     \<or> (\<exists>d wr. fs (world0 fs_truncated zero_Time) path0 = Some (File d True wr) \<and> json_Unmarshal d = None)"
    by blast
  have ne: "fs (world0 fs_truncated zero_Time) path0 \<noteq> None" using h3 by auto
  from Load_cache_miss_falls_back [OF h1 h2 h3'] ne h1 h2 h3 show ?thesis
    by (auto simp del: fun_upd_apply)
qed

text \<open>
  With a forced refresh, \<^verbatim>\<open>Load\<close> is the fall back on the provider: the first
  thing it does is to call the provider, it reads no file and does not look for the
  cache file, whatever the cache holds. When the provider succeeds, what \<^verbatim>\<open>Load\<close>
  returns is what \<^verbatim>\<open>save\<close> returns for the new credentials, and when that is no
  error, the cache file holds the new credentials.
\<close>

theorem Load_forced_refresh:
  assumes "forceRefresh c"
  shows "Load c w = Load_provider c w
       \<and> (\<forall>creds. provider c w = (creds, None) \<longrightarrow>
            Load c w = (case save c creds (log_event EvRetrieve w) of
                          (Inl a, c2, w2) \<Rightarrow> (Inl a, c2, w2)
                        | (Inr err, c2, w2) \<Rightarrow> (Inr (creds, err), c2, w2)))
       \<and> (\<forall>p c1. path c w = (Inr p, c1) \<longrightarrow>
            (\<exists>evs. trace (snd (snd (Load c w))) = trace w @ EvRetrieve # evs
                  \<and> (\<forall>q. EvReadFile q \<notin> set evs) \<and> EvStat p \<notin> set evs))
       \<and> (\<forall>creds c' w'. provider c w = (creds, None) \<longrightarrow> Load c w = (Inr (creds, None), c', w') \<longrightarrow>
            (\<exists>rd. fs w' (fullPath c') = Some (File (json_Marshal_item (save_item creds)) rd True)))"
proof -
  have l: "Load c w = Load_provider c w"
    using assms by (simp add: Load_def Load_cached_def)
  have a: "\<forall>creds. provider c w = (creds, None) \<longrightarrow>
            Load c w = (case save c creds (log_event EvRetrieve w) of
                          (Inl a, c2, w2) \<Rightarrow> (Inl a, c2, w2)
                        | (Inr err, c2, w2) \<Rightarrow> (Inr (creds, err), c2, w2))"
    unfolding l by (simp add: Load_provider_def Retrieve_def)
  have b: "\<exists>evs. trace (snd (snd (Load c w))) = trace w @ EvRetrieve # evs
                  \<and> (\<forall>q. EvReadFile q \<notin> set evs) \<and> EvStat p \<notin> set evs"
    if pth: "path c w = (Inr p, c1)" for p c1
  proof (cases "provider c w")
    case (Pair creds perr)
    show ?thesis
    proof (cases perr)
      case (Some e)
      then show ?thesis using Pair unfolding l
        by (simp add: Load_provider_def Retrieve_def log_event_def)
    next
      case None
      have pth': "path c (log_event EvRetrieve w) = (Inr p, c1)"
        using pth path_same_home [of "log_event EvRetrieve w" w c] by (simp add: log_event_def)
      obtain r c' w' where sv: "save c creds (log_event EvRetrieve w) = (r, c', w')"
        by (cases "save c creds (log_event EvRetrieve w)") auto
      from save_effect(2,7) [OF pth' sv] obtain err evs where
        e: "r = Inr err" "trace w' = trace (log_event EvRetrieve w) @ EvStat (butlast p) # evs"
           "\<forall>q. EvReadFile q \<notin> set evs" "\<forall>q. EvStat q \<notin> set evs"
        by blast
      have ne: "butlast p \<noteq> p" using path_Inr(2) [OF pth]
        by (metis append_butlast_last_id append_self_conv not_Cons_self2)
      have "Load c w = (Inr (creds, err), c', w')"
        unfolding l using Pair None sv e(1) by (simp add: Load_provider_def Retrieve_def)
      then show ?thesis using e(2-4) ne by (auto simp: log_event_def)
    qed
  qed
  have d: "\<exists>rd. fs w' (fullPath c') = Some (File (json_Marshal_item (save_item creds)) rd True)"
    if pr: "provider c w = (creds, None)" and ld: "Load c w = (Inr (creds, None), c', w')" for creds c' w'
  proof -
    obtain r c2 w2 where sv: "save c creds (log_event EvRetrieve w) = (r, c2, w2)"
      by (cases "save c creds (log_event EvRetrieve w)") auto
    have r: "r = Inr None" "c2 = c'" "w2 = w'"
      using a pr ld sv by (auto split: sum.splits)
    obtain p c1 where pth: "path c (log_event EvRetrieve w) = (Inr p, c1)"
      using sv r(1) by (cases "path c (log_event EvRetrieve w)") (auto simp: save_def split: sum.splits)
    from save_effect(1,6) [OF pth sv] r path_Inr(1) [OF pth] show ?thesis by auto
  qed
  show ?thesis using l a b d by blast
qed

theorem Load_forced_refresh_witness:
  "forceRefresh (cache0 True)
   \<and> provider (cache0 True) (world0 fs_stale zero_Time) = (creds0, None)
   \<and> Load (cache0 True) (world0 fs_stale zero_Time) =
     (Inr (creds0, None), (cache0 True)\<lparr>fullPath := path0\<rparr>,
      (world0 fs_stale zero_Time)\<lparr>fs := fs_stale(path0 \<mapsto> File (json_Marshal_item (save_item creds0)) True True),
                          trace := [EvRetrieve, EvStat dir0, EvMkdirAll dir0,
                                    EvWriteFile path0 (json_Marshal_item (save_item creds0))]\<rparr>)
   \<and> Load (cache0 True) (world0 fs_stale zero_Time) = Load_provider (cache0 True) (world0 fs_stale zero_Time)
   \<and> (\<exists>rd. (fs_stale(path0 \<mapsto> File (json_Marshal_item (save_item creds0)) True True)) path0
             = Some (File (json_Marshal_item (save_item creds0)) rd True))"
  using Load_forced_refresh [of "cache0 True" "world0 fs_stale zero_Time"]
    Load_forced_cache0 [of zero_Time]
  by simp

text \<open>
  C4. A forced refresh should call the provider without reading the cache and, when
  the provider succeeds, always write the cache file. \<^verbatim>\<open>save\<close> is meant to make
  sure that the cache directory exists, but calls \<^verbatim>\<open>MkdirAll\<close> only when the
  directory exists already. In a world without the directory \<^verbatim>\<open>~/.aws/cli/cache\<close>,
  a forced refresh whose provider succeeds returns the error of the write, and
  there is no cache file afterwards.
\<close>

theorem Load_forced_refresh_without_cache_directory:
  "forceRefresh (cache0 True)
   \<and> provider (cache0 True) (world0 Map.empty zero_Time) = (creds0, None)
   \<and> Load (cache0 True) (world0 Map.empty zero_Time) =
        (Inr (creds0, Some (ErrWriteCache ENOENT)), (cache0 True)\<lparr>fullPath := path0\<rparr>,
         (world0 Map.empty zero_Time)\<lparr>trace := [EvRetrieve, EvStat dir0,
                                     EvWriteFile path0 (json_Marshal_item (save_item creds0))]\<rparr>)
   \<and> fs (snd (snd (Load (cache0 True) (world0 Map.empty zero_Time)))) path0 = None"
  by (simp add: Load_def Load_cached_def Load_provider_def Retrieve_def save_cache0_no_root)

text \<open>
  When the path of the cache directory is a regular file, \<^verbatim>\<open>MkdirAll\<close> fails and
  the write is not even attempted.
\<close>

lemma Load_forced_refresh_directory_is_file:
  "Load (cache0 True) (world0 fs_file_at_dir zero_Time) =
     (Inr (creds0, Some (ErrMakeDirs ENOTDIR)), (cache0 True)\<lparr>fullPath := path0\<rparr>,
      (world0 fs_file_at_dir zero_Time)\<lparr>trace := [EvRetrieve, EvStat dir0, EvMkdirAll dir0]\<rparr>)"
  by (simp add: Load_def Load_cached_def Load_provider_def Retrieve_def save_cache0_file_at_dir)

text \<open>
  C6. A cache file whose expiration is the current time, to the nanosecond, is
  expired: \<^verbatim>\<open>Load\<close> does not return its credentials, it calls the provider and
  returns the credentials of the provider.
\<close>

theorem Load_expiry_boundary:
  assumes "\<not> forceRefresh c" and "path c w = (Inr p, c1)"
    and "fs w p = Some (File data True wr)"
    and "json_Unmarshal data = Some \<lparr>Credentials = Some cc\<rparr>"
    and "unix (Expiration cc) = unix (now w)" "nanos (Expiration cc) = nanos (now w)"
  shows "\<exists>w1 err evs c' w'.
           w1 = w\<lparr>trace := trace w @ [EvStat p, EvReadFile p]\<rparr>
         \<and> Load c w = (Inr (fst (provider c w1), err), c', w')
         \<and> Load c w = Load_provider c1 w1
         \<and> trace w' = trace w1 @ EvRetrieve # evs"
proof -
  define w1 where "w1 = w\<lparr>trace := trace w @ [EvStat p, EvReadFile p]\<rparr>"
  define creds where "creds = zero_Credentials\<lparr>CanExpire := True, AccessKeyID := AccessKeyId cc,
      SecretAccessKey' := SecretAccessKey cc, SessionToken' := SessionToken cc,
      Expires := Expiration cc\<rparr>"
  have g: "get c w = (Inr (creds, None), c1, w1)"
    unfolding get_unfold [OF assms(2)] w1_def creds_def using assms(3,4)
    by (simp add: get_decode_def)
  have ex: "Expired creds (now w1)"
    using assms(5,6) by (simp add: Expired_def After_def creds_def w1_def)
  have lc: "Load_cached c w = (Inr None, c1, w1)"
    using assms(1) g ex by (simp add: Load_cached_def)
  have p1: "path c1 w = (Inr p, c1)" by (rule path_Inr(6) [OF assms(2)])
  from Load_provider_effect [OF p1, of w1] obtain err evs w' where
    lp: "Load_provider c1 w1 = (Inr (fst (provider c1 w1), err), c1, w')"
        "trace w' = trace w1 @ EvRetrieve # evs"
    by blast
  have "Load c w = Load_provider c1 w1" using lc by (simp add: Load_def)
  then show ?thesis using lp path_Inr(3) [OF assms(2)] unfolding w1_def by auto
qed


theorem Load_expiry_boundary_witness:
  "\<not> forceRefresh (cache0 False)
   \<and> path (cache0 False) (world0 fs_stale time6) = (Inr path0, (cache0 False)\<lparr>fullPath := path0\<rparr>)
   \<and> fs (world0 fs_stale time6) path0 = Some (File data6 True True)
   \<and> json_Unmarshal data6 = Some \<lparr>Credentials = Some (zero_CachedCredentials\<lparr>Expiration := time6\<rparr>)\<rparr>
   \<and> Expiration (zero_CachedCredentials\<lparr>Expiration := time6\<rparr>) = now (world0 fs_stale time6)
   \<and> (\<exists>err evs c' w'.
         Load (cache0 False) (world0 fs_stale time6) = (Inr (creds0, err), c', w')
         \<and> trace w' = [EvStat path0, EvReadFile path0] @ EvRetrieve # evs)"
proof -
  have h1: "\<not> forceRefresh (cache0 False)" by simp
  note h2 = path_cache0 [of False fs_stale time6]
  have h3: "fs (world0 fs_stale time6) path0 = Some (File data6 True True)"
    by (simp add: fs_stale_def)
  have h4: "json_Unmarshal data6 = Some \<lparr>Credentials = Some (zero_CachedCredentials\<lparr>Expiration := time6\<rparr>)\<rparr>"
    by (simp add: Unmarshal_data6 time6_def)
  have h5: "unix (Expiration (zero_CachedCredentials\<lparr>Expiration := time6\<rparr>)) = unix (now (world0 fs_stale time6))"
     "nanos (Expiration (zero_CachedCredentials\<lparr>Expiration := time6\<rparr>)) = nanos (now (world0 fs_stale time6))"
    by simp_all
  from Load_expiry_boundary [OF h1 h2 h3 h4 h5] h1 h2 h3 h4 show ?thesis
    by (auto simp del: fun_upd_apply)
qed


text \<open>
  C7. When the cache is not used, the provider succeeds and \<^verbatim>\<open>save\<close> returns an
  error, \<^verbatim>\<open>Load\<close> returns that error together with the credentials of the provider.
\<close>

theorem Load_returns_credentials_with_save_error:
  assumes "Load_cached c w = (Inr None, c1, w1)"
    and "provider c1 w1 = (creds, None)"
    and "save c1 creds (log_event EvRetrieve w1) = (Inr (Some e), c2, w2)"
  shows "Load c w = (Inr (creds, Some e), c2, w2)"
  using assms by (simp add: Load_def Load_provider_def Retrieve_def)

theorem Load_returns_credentials_with_save_error_witness:
  "Load_cached (cache0 True) (world0 Map.empty zero_Time) = (Inr None, cache0 True, world0 Map.empty zero_Time)
   \<and> provider (cache0 True) (world0 Map.empty zero_Time) = (creds0, None)
   \<and> save (cache0 True) creds0 (log_event EvRetrieve (world0 Map.empty zero_Time)) =
        (Inr (Some (ErrWriteCache ENOENT)), (cache0 True)\<lparr>fullPath := path0\<rparr>,
         (world0 Map.empty zero_Time)\<lparr>trace := [EvRetrieve, EvStat dir0,
                                     EvWriteFile path0 (json_Marshal_item (save_item creds0))]\<rparr>)
   \<and> Load (cache0 True) (world0 Map.empty zero_Time) =
        (Inr (creds0, Some (ErrWriteCache ENOENT)), (cache0 True)\<lparr>fullPath := path0\<rparr>,
         (world0 Map.empty zero_Time)\<lparr>trace := [EvRetrieve, EvStat dir0,
                                     EvWriteFile path0 (json_Marshal_item (save_item creds0))]\<rparr>)"
proof -
  have h1: "Load_cached (cache0 True) (world0 Map.empty zero_Time)
              = (Inr None, cache0 True, world0 Map.empty zero_Time)"
    by (simp add: Load_cached_def)
  have h2: "provider (cache0 True) (world0 Map.empty zero_Time) = (creds0, None)" by simp
  note h3 = save_cache0_no_root [of True creds0 zero_Time]
  from Load_returns_credentials_with_save_error [OF h1 h2 h3] h1 h2 h3 show ?thesis by simp
qed

text \<open>
  C9. \<^verbatim>\<open>save\<close> calls \<^verbatim>\<open>MkdirAll\<close> for the directory of the cache file exactly when
  that directory exists, and never makes a directory. When the directory is absent,
  the write is attempted all the same and fails, nothing is created, and \<^verbatim>\<open>save\<close>
  returns the error of the write.
\<close>

theorem save_without_cache_root:
  assumes "path c w = (Inr p, c1)"
  shows "(fs w (butlast p) = None \<longrightarrow>
           save c creds w =
             (Inr (Some (ErrWriteCache ENOENT)), c1,
              w\<lparr>trace := trace w @ [EvStat (butlast p),
                                     EvWriteFile p (json_Marshal_item (save_item creds))]\<rparr>))
       \<and> (\<forall>q b. fs (snd (snd (save c creds w))) q = Some (Dir b) \<longleftrightarrow> fs w q = Some (Dir b))
       \<and> (EvMkdirAll (butlast p) \<in> set (drop (length (trace w)) (trace (snd (snd (save c creds w)))))
            \<longleftrightarrow> fs w (butlast p) \<noteq> None)"
proof -
  obtain r c' w' where sv: "save c creds w = (r, c', w')"
    by (cases "save c creds w") auto
  have a: "fs w (butlast p) = None \<longrightarrow>
           save c creds w =
             (Inr (Some (ErrWriteCache ENOENT)), c1,
              w\<lparr>trace := trace w @ [EvStat (butlast p),
                                     EvWriteFile p (json_Marshal_item (save_item creds))]\<rparr>)"
    unfolding save_unfold [OF assms] save_mkdir_cases os_WriteFile_cases
    by (simp add: write_node_def)
  from save_effect(2) [OF assms sv] obtain evs where
    t: "trace w' = trace w @ EvStat (butlast p) # evs"
       "EvMkdirAll (butlast p) \<in> set evs \<longleftrightarrow> fs w (butlast p) \<noteq> None"
    by blast
  show ?thesis using a save_effect(3) [OF assms sv] t by (simp add: sv)
qed

theorem save_without_cache_root_witness:
  "path (cache0 True) (world0 Map.empty zero_Time) = (Inr path0, (cache0 True)\<lparr>fullPath := path0\<rparr>)
   \<and> fs (world0 Map.empty zero_Time) (butlast path0) = None
   \<and> save (cache0 True) creds0 (world0 Map.empty zero_Time) =
        (Inr (Some (ErrWriteCache ENOENT)), (cache0 True)\<lparr>fullPath := path0\<rparr>,
         (world0 Map.empty zero_Time)\<lparr>trace := [EvStat dir0, EvWriteFile path0 (json_Marshal_item (save_item creds0))]\<rparr>)"
  using save_without_cache_root [OF path_cache0 [of True Map.empty zero_Time], of creds0]
  by (simp add: path_cache0 path0_facts)


subsection \<open>The main program\<close>

text \<open>
  C5. Without the cache, the loader is one call of the provider: the trace gains
  that call and nothing else, the file system is as before, and the flag of the
  forced refresh makes no difference.
\<close>

theorem no_cache_touches_no_file:
  assumes "noCache fl"
  shows "load_credentials fl p opts w =
           (case p w of (creds, Some e) \<Rightarrow> Inl (FatalError e) | (creds, None) \<Rightarrow> Inr creds,
            w\<lparr>trace := trace w @ [EvRetrieve]\<rparr>)
       \<and> fs (snd (load_credentials fl p opts w)) = fs w
       \<and> trace (snd (load_credentials fl p opts w)) = trace w @ [EvRetrieve]
       \<and> load_credentials (fl\<lparr>forceRefresh_flag := b\<rparr>) p opts w = load_credentials fl p opts w"
  using assms
  by (auto simp: load_credentials_def Retrieve_def log_event_def split: prod.splits option.splits)

theorem no_cache_touches_no_file_witness:
  "noCache (flags0 True True 3600000000000)
   \<and> load_credentials (flags0 True True 3600000000000) (\<lambda>w. (creds0, None)) opts0 (world0 fs_stale time6)
       = (Inr creds0, (world0 fs_stale time6)\<lparr>trace := [EvRetrieve]\<rparr>)
   \<and> load_credentials (flags0 True False 3600000000000) (\<lambda>w. (creds0, None)) opts0 (world0 fs_stale time6)
       = (Inr creds0, (world0 fs_stale time6)\<lparr>trace := [EvRetrieve]\<rparr>)"
proof -
  have h: "noCache (flags0 True True 3600000000000)" by (simp add: flags0_def)
  have e: "(flags0 True True 3600000000000)\<lparr>forceRefresh_flag := False\<rparr> = flags0 True False 3600000000000"
    by (simp add: flags0_def)
  from no_cache_touches_no_file [OF h, of "\<lambda>w. (creds0, None)" opts0 "world0 fs_stale time6" False] h e
  show ?thesis by simp
qed

text \<open>
  C10. The duration passes the check of \<^verbatim>\<open>main\<close> exactly when it is at least 15
  minutes and at most 12 hours, both bounds included. For any other duration
  \<^verbatim>\<open>main\<close> stops with the message of the check and the world is as before: no call
  of the provider and no access to a file has taken place. A duration that passes
  lets \<^verbatim>\<open>main\<close> go on to the configuration and the loader.
\<close>

theorem main_duration_check:
  "(duration_ok d \<longleftrightarrow> 900000000000 \<le> d \<and> d \<le> 43200000000000)
   \<and> (\<not> duration_ok (duration fl) \<longrightarrow>
        main fl cfg w = (Inl (Fatal ''duration must be between 15 minutes and 12 hours''), w))
   \<and> (duration_ok (duration fl) \<longrightarrow>
        main fl cfg w = (case cfg of Inl e \<Rightarrow> (Inl (Fatal e), w)
                                   | Inr (p, opts) \<Rightarrow> load_credentials fl p opts w))"
  by (simp add: main_def duration_ok_def Minute_def Hour_def)

theorem main_duration_check_witness:
  "\<not> duration_ok 899999999999 \<and> duration_ok 900000000000
   \<and> duration_ok 43200000000000 \<and> \<not> duration_ok 43200000000001
   \<and> main (flags0 False False 899999999999) (Inr (\<lambda>w. (creds0, None), opts0)) (world0 fs_stale time6)
       = (Inl (Fatal ''duration must be between 15 minutes and 12 hours''), world0 fs_stale time6)
   \<and> main (flags0 False False 43200000000001) (Inr (\<lambda>w. (creds0, None), opts0)) (world0 fs_stale time6)
       = (Inl (Fatal ''duration must be between 15 minutes and 12 hours''), world0 fs_stale time6)
   \<and> main (flags0 True False 900000000000) (Inr (\<lambda>w. (creds0, None), opts0)) (world0 fs_stale time6)
       = load_credentials (flags0 True False 900000000000) (\<lambda>w. (creds0, None)) opts0 (world0 fs_stale time6)"
  using main_duration_check [of 899999999999 "flags0 False False 899999999999"
      "Inr (\<lambda>w. (creds0, None), opts0)" "world0 fs_stale time6"]
    main_duration_check [of 43200000000001 "flags0 False False 43200000000001"
      "Inr (\<lambda>w. (creds0, None), opts0)" "world0 fs_stale time6"]
    main_duration_check [of 900000000000 "flags0 True False 900000000000"
      "Inr (\<lambda>w. (creds0, None), opts0)" "world0 fs_stale time6"]
    main_duration_check [of 43200000000000]
  by (simp add: flags0_def)

end
